theory Spec2Isabelle
  imports Complex_Main "HOL-Library.AList" "HOL-Library.List_Lexorder" "HOL-Library.Char_ord"
begin

section \<open>JavaScript values used by the guard\<close>

text \<open>
  A JavaScript number is a finite value, one of the two infinities, or NaN. Finite values
  are kept as exact reals: the rounding and the overflow of IEEE doubles are not part of
  this development. Timestamps (\<open>Date.now()\<close>) and validated configuration numbers
  are integers.
\<close>

datatype jsnum = NaN | PosInf | NegInf | Fin real

text \<open>
  The values an option such as \<open>options.retries\<close> is given as: absent
  (\<open>undefined\<close>), \<open>null\<close>, a boolean or a number.
\<close>

datatype jsval = Undefined | Null | JBool bool | JNum jsnum

text \<open>\<open>Number(value)\<close> on these values.\<close>

fun Number_js :: "jsval \<Rightarrow> jsnum" where
  "Number_js Undefined = NaN"
| "Number_js Null = Fin 0"
| "Number_js (JBool b) = Fin (if b then 1 else 0)"
| "Number_js (JNum n) = n"

text \<open>
  \<open>parse_safe_number(value, fallback, min, max)\<close>, the local helper of \<open>run\<close>:
  \<^verbatim>\<open>
  const num = Number(value);
  if (!Number.isFinite(num) || num < min || num > max) { return fallback; }
  return Math.floor(num);
  \<close>
  Every call site passes a finite \<open>min\<close> and \<open>max\<close> and an integer fallback.
\<close>

definition parse_safe_number :: "jsval \<Rightarrow> int \<Rightarrow> real \<Rightarrow> real \<Rightarrow> int" where
  "parse_safe_number v fallback mn mx =
     (case Number_js v of
        Fin num \<Rightarrow> if num < mn \<or> num > mx then fallback else \<lfloor>num\<rfloor>
      | _ \<Rightarrow> fallback)"

text \<open>\<open>x || d\<close> on an optional integer: \<open>undefined\<close> and \<open>0\<close> are falsy.\<close>

definition js_or :: "int option \<Rightarrow> int \<Rightarrow> int" where
  "js_or v d = (case v of None \<Rightarrow> d | Some n \<Rightarrow> if n = 0 then d else n)"

text \<open>
  \<open>name || "__default__"\<close> as the metric labels use it: a name that is not given, or
  the empty string, is falsy.
\<close>

definition name_or_default :: "string option \<Rightarrow> string" where
  "name_or_default n = (case n of None \<Rightarrow> ''__default__'' | Some s \<Rightarrow> if s = [] then ''__default__'' else s)"

section \<open>Metrics engine\<close>

text \<open>
  A label value is a number, a boolean or a string; the template literal
  \<open>${labels[key]}\<close> renders it in decimal, as \<open>true\<close>/\<open>false\<close>, or as it is.
\<close>

datatype label_value = LNum int | LBool bool | LStr string

type_synonym labels = "(string \<times> label_value) list"

definition digit_char :: "nat \<Rightarrow> char" where
  "digit_char d = char_of (48 + d)"

function show_nat :: "nat \<Rightarrow> string" where
  "show_nat n = (if n < 10 then [digit_char n] else show_nat (n div 10) @ [digit_char (n mod 10)])"
  by pat_completeness auto
termination
  by (relation "measure (\<lambda>n. n)") auto

declare show_nat.simps [simp del]

definition show_int :: "int \<Rightarrow> string" where
  "show_int i = (if i < 0 then CHR ''-'' # show_nat (nat (- i)) else show_nat (nat i))"

fun label_to_string :: "label_value \<Rightarrow> string" where
  "label_to_string (LNum i) = show_int i"
| "label_to_string (LBool b) = (if b then ''true'' else ''false'')"
| "label_to_string (LStr s) = s"

fun join :: "string \<Rightarrow> string list \<Rightarrow> string" where
  "join sep [] = []"
| "join sep [x] = x"
| "join sep (x # y # ys) = x @ sep @ join sep (y # ys)"

text \<open>
  \<open>_get_metric_key(name, labels)\<close>: the name alone when there is no label, else the
  name followed by the sorted \<open>key:value\<close> pairs in braces.
\<close>

definition get_metric_key :: "string \<Rightarrow> labels \<Rightarrow> string" where
  "get_metric_key name labels =
     (let keys = map fst labels in
      if length keys = 0 then name
      else name @ ''{'' @
           join '','' (map (\<lambda>key. key @ '':'' @
                          (case map_of labels key of
                             None \<Rightarrow> ''undefined''
                           | Some v \<Rightarrow> label_to_string v)) (sort keys)) @ ''}'')"

section \<open>The registries\<close>

datatype circuit_state = CLOSED | OPEN | HALF_OPEN

record circuit =
  failures :: "int list"
  state :: circuit_state
  opened_at :: "int option"

text \<open>
  The configuration a limiter stores at its creation, and the \<open>rate_limit\<close> option of a
  call, which carries the same two fields and more. A field that is absent is \<open>None\<close>.
\<close>

record limiter_configuration =
  max_requests :: "int option"
  window_ms :: "int option"

record rate_limit_config = limiter_configuration +
  rl_name :: "string option"
  queue :: bool
  queue_max_wait_ms :: "int option"

record limiter =
  requests :: "int list"
  configuration :: "limiter_configuration option"

record circuit_breaker_config =
  name :: "string option"
  threshold :: "int option"
  window :: "int option"
  recovery :: "int option"

text \<open>
  The static fields of the class. A JavaScript \<open>Map\<close> keeps its keys in insertion order:
  it is an association list with distinct keys, \<open>AList.update\<close> for \<open>set\<close> (in place
  for a present key, at the end for a new one) and \<open>AList.delete\<close> for \<open>delete\<close>.
  The static field \<open>_exporter\<close> is \<open>null\<close>, its initial value, throughout:
  \<open>set_exporter\<close> is not embedded, so that the last statement of \<open>_inc\<close> and of
  \<open>_observe\<close> (\<open>if (this._exporter?.inc) { ... }\<close>) does nothing.
\<close>

record registry =
  active_operations :: int
  circuits :: "(string \<times> circuit) list"
  circuit_access_order :: "string list"
  rate_limiters :: "(string \<times> limiter) list"
  rate_limiter_access_order :: "string list"
  counters :: "(string \<times> int) list"
  timers :: "(string \<times> real list) list"

definition max_concurrent_operations :: int where "max_concurrent_operations = 100"
definition max_circuits :: nat where "max_circuits = 1000"
definition max_rate_limiters :: nat where "max_rate_limiters = 1000"
definition max_metric_keys :: nat where "max_metric_keys = 2000"
definition max_timer_values :: nat where "max_timer_values = 1000"
definition max_access_order_size :: nat where "max_access_order_size = 10000"

definition initial_registry :: registry where
  "initial_registry =
     \<lparr>active_operations = 0, circuits = [], circuit_access_order = [],
      rate_limiters = [], rate_limiter_access_order = [],
      counters = [], timers = []\<rparr>"

text \<open>
  Deleting the first key of a \<open>Map\<close>, as \<open>map.delete(map.keys().next().value)\<close> does;
  on an empty map the key is \<open>undefined\<close> and nothing is deleted.
\<close>

definition delete_first_key :: "(string \<times> 'a) list \<Rightarrow> (string \<times> 'a) list" where
  "delete_first_key m = (case m of [] \<Rightarrow> [] | (k, _) # _ \<Rightarrow> AList.delete k m)"

text \<open>
  \<open>_inc(name, labels, value = 1)\<close>:
  \<^verbatim>\<open>
  const key = this._get_metric_key(name, labels);
  if (this._metrics.counters.size >= this._max_metric_keys) {
      const first_key = this._metrics.counters.keys().next().value;
      this._metrics.counters.delete(first_key);
  }
  this._metrics.counters.set(key, (this._metrics.counters.get(key) || 0) + value);
  if (this._exporter?.inc) { this._exporter.inc(name, labels, value); }
  \<close>
  The last statement does nothing, \<open>_exporter\<close> being \<open>null\<close>.
\<close>

definition inc_by :: "string \<Rightarrow> labels \<Rightarrow> int \<Rightarrow> registry \<Rightarrow> registry" where
  "inc_by nm labels v s =
     (let key = get_metric_key nm labels;
          cs = (if length (counters s) \<ge> max_metric_keys
                then delete_first_key (counters s) else counters s);
          old = (case map_of cs key of None \<Rightarrow> 0 | Some c \<Rightarrow> c)
      in s\<lparr>counters := AList.update key (old + v) cs\<rparr>)"

definition inc :: "string \<Rightarrow> labels \<Rightarrow> registry \<Rightarrow> registry" where
  "inc nm labels s = inc_by nm labels 1 s"

text \<open>
  \<open>_observe(name, value, labels)\<close>: the value is appended to the series of the key, and
  the series loses its oldest values while it is longer than the capacity.
\<close>

function shift_while_longer :: "nat \<Rightarrow> 'a list \<Rightarrow> 'a list" where
  "shift_while_longer cap arr = (if length arr > cap then shift_while_longer cap (tl arr) else arr)"
  by pat_completeness auto
termination
  by (relation "measure (\<lambda>(cap, arr). length arr)") auto

declare shift_while_longer.simps [simp del]

definition observe :: "string \<Rightarrow> real \<Rightarrow> labels \<Rightarrow> registry \<Rightarrow> registry" where
  "observe nm v labels s =
     (let key = get_metric_key nm labels;
          ts = (if length (timers s) \<ge> max_metric_keys
                then delete_first_key (timers s) else timers s);
          arr = (case map_of ts key of None \<Rightarrow> [] | Some a \<Rightarrow> a)
      in s\<lparr>timers := AList.update key (shift_while_longer max_timer_values (arr @ [v])) ts\<rparr>)"

text \<open>\<open>reset_metrics()\<close> clears both registries.\<close>

definition reset_metrics :: "registry \<Rightarrow> registry" where
  "reset_metrics s = s\<lparr>counters := [], timers := []\<rparr>"

text \<open>
  \<open>get_metrics()\<close> takes no parameter, and its body starts by reading the identifier
  \<open>format\<close>:
  \<^verbatim>\<open>
  static get_metrics() {
      if (format === "raw") { return { counters: ..., timers: ... }; }
      ...
  \<close>
  Neither the function, the class nor the module declares \<open>format\<close>, so the
  identifier resolves to the property of that name of the global object, if there is
  one, and reading it throws a \<open>ReferenceError\<close> otherwise. \<open>global_format\<close> is that
  property: \<open>None\<close> when the global object has none (as in every standard host),
  \<open>Some f\<close> for a string \<open>f\<close> some other script stored there. The grouped and the
  line-oriented shapes are not embedded: a resolved \<open>format\<close> other than
  \<open>raw\<close>, \<open>json\<close> and \<open>prometheus\<close> ends in the error of the last line, and the
  two grouped shapes are kept as a tag.
\<close>

datatype metrics_error = ReferenceError_format | Invalid_Metrics_Format

datatype metrics_snapshot =
    Raw "(string \<times> int) list" "(string \<times> real list) list"
  | Grouped_json
  | Prometheus_text

definition get_metrics :: "string option \<Rightarrow> registry \<Rightarrow> metrics_error + metrics_snapshot" where
  "get_metrics global_format s =
     (case global_format of
        None \<Rightarrow> Inl ReferenceError_format
      | Some format \<Rightarrow>
          if format = ''raw'' then Inr (Raw (counters s) (timers s))
          else if format = ''json'' then Inr Grouped_json
          else if format = ''prometheus'' then Inr Prometheus_text
          else Inl Invalid_Metrics_Format)"

section \<open>Names and keys\<close>

text \<open>
  \<open>_sanitize_name(name)\<close>: a name that is not a string (\<open>None\<close>) becomes the
  default; a string is cut to its first 100 characters, and each of the characters
  \<open>{ } : ,\<close>, line feed, carriage return and tab is replaced by an underscore.
\<close>

definition offending :: "char \<Rightarrow> bool" where
  "offending c \<longleftrightarrow>
     c = CHR ''{'' \<or> c = CHR ''}'' \<or> c = CHR '':'' \<or> c = CHR '','' \<or>
     c = CHR 0x0A \<or> c = CHR 0x0D \<or> c = CHR 0x09"

definition sanitize_name :: "string option \<Rightarrow> string" where
  "sanitize_name n =
     (case n of
        None \<Rightarrow> ''__default__''
      | Some s \<Rightarrow> map (\<lambda>c. if offending c then CHR ''_'' else c) (take 100 s))"

text \<open>
  \<open>_get_circuit_key(configuration)\<close>: the key is the sanitized name (the default for an
  empty one, \<open>name || "__default__"\<close>, which is \<open>key_of_name\<close>); the key moves to
  the end of the access order, which loses its first entry when it grows beyond its
  capacity.
\<close>

definition key_of_name :: "string option \<Rightarrow> string" where
  "key_of_name n = (let nm = sanitize_name n in if nm = [] then ''__default__'' else nm)"

definition get_circuit_key :: "circuit_breaker_config \<Rightarrow> registry \<Rightarrow> string \<times> registry" where
  "get_circuit_key cfg s =
     (let key = key_of_name (name cfg);
          order = remove1 key (circuit_access_order s) @ [key];
          order' = (if length order > max_access_order_size then tl order else order)
      in (key, s\<lparr>circuit_access_order := order'\<rparr>))"

definition maybe_cleanup_circuits :: "registry \<Rightarrow> registry" where
  "maybe_cleanup_circuits s =
     (if length (circuits s) \<ge> max_circuits then
        (case circuit_access_order s of
           [] \<Rightarrow> s
         | lru_key # rest \<Rightarrow>
             let s1 = s\<lparr>circuit_access_order := rest\<rparr> in
             if lru_key \<noteq> [] then
               inc ''asyncguardjs.circuit.evicted'' [(''name'', LStr lru_key)]
                 (s1\<lparr>circuits := AList.delete lru_key (circuits s1)\<rparr>)
             else s1)
      else s)"

section \<open>Circuit breaker registry\<close>

text \<open>
  \<open>_is_circuit_open(configuration)\<close> at time \<open>now\<close>. An \<open>opened_at\<close> of \<open>null\<close>
  counts as 0 in the subtraction.
\<close>

definition is_circuit_open :: "circuit_breaker_config \<Rightarrow> int \<Rightarrow> registry \<Rightarrow> bool \<times> registry" where
  "is_circuit_open cfg now s =
     (let (key, s1) = get_circuit_key cfg s in
      case map_of (circuits s1) key of
        None \<Rightarrow> (False, s1)
      | Some c \<Rightarrow>
          let recovery_time = js_or (recovery cfg) 30000;
              c' = (if state c = OPEN \<and>
                       now - (case opened_at c of None \<Rightarrow> 0 | Some t \<Rightarrow> t) \<ge> recovery_time
                    then c\<lparr>state := HALF_OPEN\<rparr> else c)
          in (state c' = OPEN, s1\<lparr>circuits := AList.update key c' (circuits s1)\<rparr>))"

text \<open>\<open>_record_success(configuration)\<close>: a half-open circuit is deleted.\<close>

definition record_success :: "circuit_breaker_config \<Rightarrow> registry \<Rightarrow> registry" where
  "record_success cfg s =
     (let (key, s1) = get_circuit_key cfg s in
      case map_of (circuits s1) key of
        None \<Rightarrow> s1
      | Some c \<Rightarrow>
          if state c = HALF_OPEN then
            let s2 = inc ''asyncguardjs.circuit.recovered''
                       [(''name'', LStr (name_or_default (name cfg)))] s1
            in s2\<lparr>circuits := AList.delete key (circuits s2)\<rparr>
          else s1)"

text \<open>
  \<open>_record_failure(configuration)\<close> at time \<open>now\<close>: the timestamp is appended, the
  timestamps older than the window are shifted off the front, and a circuit whose state
  is \<open>CLOSED\<close> opens when the count has reached the threshold.
\<close>

definition record_failure :: "circuit_breaker_config \<Rightarrow> int \<Rightarrow> registry \<Rightarrow> registry" where
  "record_failure cfg now s =
     (let (key, s1) = get_circuit_key cfg s;
          s2 = maybe_cleanup_circuits s1;
          thr = js_or (threshold cfg) 5;
          win = js_or (window cfg) 60000;
          (c, s3) = (case map_of (circuits s2) key of
                       None \<Rightarrow>
                         (let c0 = \<lparr>failures = [], state = CLOSED, opened_at = None\<rparr>
                          in (c0, s2\<lparr>circuits := AList.update key c0 (circuits s2)\<rparr>))
                     | Some c \<Rightarrow> (c, s2));
          cutoff = now - win;
          c1 = c\<lparr>failures := dropWhile (\<lambda>t. t < cutoff) (failures c @ [now])\<rparr>
      in if int (length (failures c1)) \<ge> thr \<and> state c1 = CLOSED then
           inc ''asyncguardjs.circuit.open'' [(''name'', LStr (name_or_default (name cfg)))]
             (s3\<lparr>circuits := AList.update key (c1\<lparr>state := OPEN, opened_at := Some now\<rparr>) (circuits s3)\<rparr>)
         else s3\<lparr>circuits := AList.update key c1 (circuits s3)\<rparr>)"

text \<open>
  \<open>reset_circuit(name)\<close> and \<open>get_circuit_status(name)\<close> use the name they are given
  as the key, as it is. \<open>None\<close> as the result of \<open>get_circuit_status\<close> is \<open>null\<close>.
\<close>

definition reset_circuit :: "string \<Rightarrow> registry \<Rightarrow> registry" where
  "reset_circuit nm s = s\<lparr>circuits := AList.delete nm (circuits s)\<rparr>"

datatype circuit_status =
  Circuit_Status (status_state: circuit_state) (status_failures: nat) (status_opened_at: "int option")

fun state_string :: "circuit_state \<Rightarrow> string" where
  "state_string CLOSED = ''CLOSED''"
| "state_string OPEN = ''OPEN''"
| "state_string HALF_OPEN = ''HALF_OPEN''"

definition get_circuit_status :: "string \<Rightarrow> registry \<Rightarrow> circuit_status option \<times> registry" where
  "get_circuit_status nm s =
     (case map_of (circuits s) nm of
        None \<Rightarrow> (None, s)
      | Some c \<Rightarrow>
          (Some (Circuit_Status (state c) (length (failures c)) (opened_at c)),
           inc ''asyncguardjs.circuit.state''
             [(''name'', LStr nm), (''state'', LStr (state_string (state c)))] s))"

section \<open>Rate limiter registry\<close>

definition get_rate_limit_key :: "rate_limit_config \<Rightarrow> registry \<Rightarrow> string \<times> registry" where
  "get_rate_limit_key cfg s =
     (let key = key_of_name (rl_name cfg)
      in (key, s\<lparr>rate_limiter_access_order := remove1 key (rate_limiter_access_order s) @ [key]\<rparr>))"

definition maybe_cleanup_rate_limiters :: "registry \<Rightarrow> registry" where
  "maybe_cleanup_rate_limiters s =
     (if length (rate_limiters s) \<ge> max_rate_limiters then
        (case rate_limiter_access_order s of
           [] \<Rightarrow> s
         | lru_key # rest \<Rightarrow>
             let s1 = s\<lparr>rate_limiter_access_order := rest\<rparr> in
             if lru_key \<noteq> [] then
               inc ''asyncguardjs.ratelimit.evicted'' [(''name'', LStr lru_key)]
                 (s1\<lparr>rate_limiters := AList.delete lru_key (rate_limiters s1)\<rparr>)
             else s1)
      else s)"

text \<open>
  \<open>_can_proceed_rate_limit(configuration)\<close> at time \<open>now\<close>. The window and the
  maximum of the check are read from the configuration of the call
  (\<open>configuration.window_ms || 1000\<close>, \<open>configuration.max_requests || 10\<close>); the
  configuration stored in the limiter is written once, when the limiter is created.
\<close>

definition can_proceed_rate_limit :: "rate_limit_config \<Rightarrow> int \<Rightarrow> registry \<Rightarrow> bool \<times> registry" where
  "can_proceed_rate_limit cfg now s =
     (let (key, s1) = get_rate_limit_key cfg s;
          win = js_or (window_ms cfg) 1000;
          s2 = maybe_cleanup_rate_limiters s1;
          (l, s3) = (case map_of (rate_limiters s2) key of
                       None \<Rightarrow>
                         (let l0 = \<lparr>requests = [],
                                    configuration = Some \<lparr>max_requests = max_requests cfg,
                                                          window_ms = window_ms cfg\<rparr>\<rparr>
                          in (l0, s2\<lparr>rate_limiters := AList.update key l0 (rate_limiters s2)\<rparr>))
                     | Some l \<Rightarrow> (l, s2));
          cutoff = now - win;
          l1 = l\<lparr>requests := filter (\<lambda>timestamp. timestamp \<ge> cutoff) (requests l)\<rparr>;
          s4 = s3\<lparr>rate_limiters := AList.update key l1 (rate_limiters s3)\<rparr>;
          mx = js_or (max_requests cfg) 10
      in if int (length (requests l1)) \<ge> mx then
           (False, inc ''asyncguardjs.ratelimit.hit''
                     [(''name'', LStr (name_or_default (rl_name cfg)))] s4)
         else (True, s4))"

text \<open>\<open>_register_rate_limit_request(configuration)\<close> at time \<open>now\<close>.\<close>

definition register_rate_limit_request :: "rate_limit_config \<Rightarrow> int \<Rightarrow> registry \<Rightarrow> registry" where
  "register_rate_limit_request cfg now s =
     (let (key, s1) = get_rate_limit_key cfg s;
          l = (case map_of (rate_limiters s1) key of
                 None \<Rightarrow> \<lparr>requests = [], configuration = None\<rparr>
               | Some l \<Rightarrow> l)
      in s1\<lparr>rate_limiters := AList.update key (l\<lparr>requests := requests l @ [now]\<rparr>) (rate_limiters s1)\<rparr>)"

text \<open>
  \<open>_jittered_delay(base_ms)\<close> with the two values \<open>Math.random()\<close> returns;
  \<open>Math.round(x)\<close> is \<open>floor(x + 0.5)\<close>.
\<close>

definition jittered_delay :: "int \<Rightarrow> real \<Rightarrow> real \<Rightarrow> int" where
  "jittered_delay base_ms r1 r2 =
     (let spread = real_of_int base_ms * (0.7 + r1 * 0.6);
          extra_stagger = r2 * 200
      in \<lfloor>spread + extra_stagger + 1 / 2\<rfloor>)"

section \<open>Errors and results of run\<close>

text \<open>
  What a task, a fallback or \<open>retry_if\<close> throws is kept as its message, if it has
  one. The errors \<open>run\<close> itself throws are the constructors of \<open>guard_error\<close>;
  \<open>Task_Failure\<close> is the wrapped terminal error with its message, its cause and the
  attempt.
\<close>

datatype thrown = Thrown (message: "string option")

datatype guard_error =
    Task_Not_Function
  | Max_Concurrent_Exceeded int
  | Backoff_Not_A_Function
  | Threshold_Invalid
  | Window_Invalid
  | Recovery_Invalid
  | Circuit_Is_Open
  | Max_Requests_Invalid
  | Window_Ms_Invalid
  | Rate_Limit_Exceeded
  | Rate_Limit_Queue_Timeout int
  | Aborted_While_Queued
  | Aborted_Before_Start
  | Aborted_During_Backoff int
  | Task_Failure string thrown int
  | Fallback_Failed thrown guard_error int

datatype 'v run_value = Task_Value 'v | Fallback_Value 'v | Returned_Undefined

type_synonym 'v run_result = "(guard_error + 'v run_value) \<times> registry"

section \<open>Queueing on the rate limiter\<close>

text \<open>
  What one round of the admission loop of \<open>run\<close> reads from outside the program: the
  clock at the check, at the registration and in the wait, the two random numbers of the
  jitter, and whether the caller's signal is aborted before the wait is over.
\<close>

record rl_step =
  check_now :: int
  register_now :: int
  wait_now :: int
  random_spread :: real
  random_stagger :: real
  queue_aborted :: bool

text \<open>
  \<open>_wait_for_rate_limit(configuration, signal)\<close>. The window of the wait is the one
  the limiter has stored (\<open>limiter.configuration || configuration\<close>). A window that is
  \<open>undefined\<close> makes the wait \<open>NaN\<close>, which is neither \<open>\<le> 0\<close> nor above the
  maximum: the call is counted as queued and the timer fires at once.
\<close>

definition wait_for_rate_limit ::
  "rate_limit_config \<Rightarrow> bool \<Rightarrow> rl_step \<Rightarrow> registry \<Rightarrow> (guard_error + unit) \<times> registry" where
  "wait_for_rate_limit cfg signal_given e s =
     (if \<not> queue cfg then (Inl Rate_Limit_Exceeded, s)
      else
        let (key, s1) = get_rate_limit_key cfg s in
        case map_of (rate_limiters s1) key of
          None \<Rightarrow> (Inr (), s1)
        | Some l \<Rightarrow>
            let effective_configuration =
                  (case configuration l of
                     None \<Rightarrow> limiter_configuration.truncate cfg
                   | Some c \<Rightarrow> c);
                nm = LStr (name_or_default (rl_name cfg))
            in case (requests l, window_ms effective_configuration) of
                 ([], _) \<Rightarrow> (Inr (), s1)
               | (oldest # _, None) \<Rightarrow>
                   (let s2 = inc ''asyncguardjs.ratelimit.queued''
                               [(''name'', nm), (''original_wait_ms'', LStr ''NaN''),
                                (''effective_wait_ms'', LStr ''NaN'')] s1
                    in if signal_given \<and> queue_aborted e then (Inl Aborted_While_Queued, s2)
                       else (Inr (), s2))
               | (oldest # _, Some win) \<Rightarrow>
                   (let wait_ms = max 0 (oldest + win - wait_now e) in
                    if wait_ms \<le> 0 then (Inr (), s1)
                    else
                      let effective_wait = jittered_delay wait_ms (random_spread e) (random_stagger e);
                          s2 = inc ''asyncguardjs.ratelimit.queued''
                                 [(''name'', nm), (''original_wait_ms'', LNum wait_ms),
                                  (''effective_wait_ms'', LNum effective_wait)] s1;
                          max_wait = js_or (queue_max_wait_ms cfg) 30000
                      in if effective_wait > max_wait then (Inl (Rate_Limit_Queue_Timeout effective_wait), s2)
                         else if signal_given \<and> queue_aborted e then (Inl Aborted_While_Queued, s2)
                         else (Inr (), s2)))"

text \<open>
  The admission loop of \<open>run\<close>:
  \<^verbatim>\<open>
  while (true) {
      if (this._can_proceed_rate_limit(rate_limit)) {
          this._register_rate_limit_request(rate_limit); break;
      }
      await this._wait_for_rate_limit(rate_limit, signal);
  }
  \<close>
  One element of the list is read per round; \<open>None\<close> is a call that is still in the
  loop when the list is used up.
\<close>

fun rate_limit_loop ::
  "rate_limit_config \<Rightarrow> bool \<Rightarrow> rl_step list \<Rightarrow> registry \<Rightarrow> ((guard_error + unit) \<times> registry) option" where
  "rate_limit_loop cfg signal_given [] s = None"
| "rate_limit_loop cfg signal_given (e # es) s =
     (case can_proceed_rate_limit cfg (check_now e) s of
        (True, s1) \<Rightarrow> Some (Inr (), register_rate_limit_request cfg (register_now e) s1)
      | (False, s1) \<Rightarrow>
          (case wait_for_rate_limit cfg signal_given e s1 of
             (Inl err, s2) \<Rightarrow> Some (Inl err, s2)
           | (Inr _, s2) \<Rightarrow> rate_limit_loop cfg signal_given es s2))"

section \<open>Backoff\<close>

text \<open>Arithmetic on JavaScript numbers, as far as the backoff uses it.\<close>

fun js_mul :: "jsnum \<Rightarrow> jsnum \<Rightarrow> jsnum" where
  "js_mul (Fin a) (Fin b) = Fin (a * b)"
| "js_mul NaN _ = NaN"
| "js_mul _ NaN = NaN"
| "js_mul PosInf (Fin b) = (if b > 0 then PosInf else if b < 0 then NegInf else NaN)"
| "js_mul NegInf (Fin b) = (if b > 0 then NegInf else if b < 0 then PosInf else NaN)"
| "js_mul (Fin a) PosInf = (if a > 0 then PosInf else if a < 0 then NegInf else NaN)"
| "js_mul (Fin a) NegInf = (if a > 0 then NegInf else if a < 0 then PosInf else NaN)"
| "js_mul PosInf PosInf = PosInf"
| "js_mul NegInf NegInf = PosInf"
| "js_mul PosInf NegInf = NegInf"
| "js_mul NegInf PosInf = NegInf"

text \<open>\<open>Math.min(a, b)\<close>, \<open>a < b\<close>, \<open>isFinite(a)\<close> and \<open>a || 0\<close>.\<close>

fun js_min :: "jsnum \<Rightarrow> jsnum \<Rightarrow> jsnum" where
  "js_min (Fin a) (Fin b) = Fin (min a b)"
| "js_min NaN _ = NaN"
| "js_min _ NaN = NaN"
| "js_min NegInf _ = NegInf"
| "js_min _ NegInf = NegInf"
| "js_min PosInf b = b"
| "js_min a PosInf = a"

fun js_less :: "jsnum \<Rightarrow> jsnum \<Rightarrow> bool" where
  "js_less (Fin a) (Fin b) = (a < b)"
| "js_less NaN _ = False"
| "js_less _ NaN = False"
| "js_less NegInf NegInf = False"
| "js_less NegInf _ = True"
| "js_less _ NegInf = False"
| "js_less PosInf _ = False"
| "js_less (Fin a) PosInf = True"

fun js_isFinite :: "jsnum \<Rightarrow> bool" where
  "js_isFinite (Fin a) = True"
| "js_isFinite _ = False"

fun js_or_zero :: "jsnum \<Rightarrow> jsnum" where
  "js_or_zero NaN = Fin 0"
| "js_or_zero (Fin a) = Fin a"
| "js_or_zero PosInf = PosInf"
| "js_or_zero NegInf = NegInf"

text \<open>\<open>Math.pow(2, e)\<close> and \<open>2 ** e\<close> for an integer \<open>e\<close>.\<close>

definition pow2 :: "int \<Rightarrow> real" where
  "pow2 e = (if e \<ge> 0 then 2 ^ nat e else 1 / 2 ^ nat (- e))"

text \<open>
  The \<open>backoff\<close> option: absent (the default
  \<open>(attempt) => Math.min(5000, 100 * 2 ** (attempt - 1))\<close> is used), given but not a
  function (which \<open>run\<close> rejects), or a function. A function is kept as what
  \<open>Number(backoff(attempt))\<close> evaluates to: \<open>None\<close> when the call or the conversion
  throws, \<open>Some NaN\<close> for a result that is not numeric.
\<close>

datatype backoff_option =
    Backoff_Default
  | Backoff_Not_Function
  | Backoff_Function "int \<Rightarrow> jsnum option"

definition default_backoff :: "int \<Rightarrow> jsnum" where
  "default_backoff attempt = Fin (min 5000 (100 * pow2 (attempt - 1)))"

definition fallback_delay :: "int \<Rightarrow> int \<Rightarrow> jsnum" where
  "fallback_delay max_backoff attempt =
     js_min (Fin (real_of_int max_backoff)) (Fin (100 * pow2 (min (attempt - 1) 10)))"

text \<open>
  \<^verbatim>\<open>
  let base_delay = 0;
  try {
      base_delay = Number(backoff(attempt)) || 0;
      if (!isFinite(base_delay) || base_delay < 0) {
          base_delay = Math.min(max_backoff, 100 * Math.pow(2, Math.min(attempt - 1, 10)));
      }
  } catch {
      base_delay = Math.min(max_backoff, 100 * Math.pow(2, Math.min(attempt - 1, 10)));
  }
  const delay = Math.min(max_backoff, jitter(base_delay));
  \<close>
  with \<open>jitter = (ms) => ms * (0.8 + Math.random() * 0.4)\<close>; \<open>rnd\<close> is the value of
  \<open>Math.random()\<close>.
\<close>

definition base_delay :: "backoff_option \<Rightarrow> int \<Rightarrow> int \<Rightarrow> jsnum" where
  "base_delay bo max_backoff attempt =
     (case (case bo of
              Backoff_Default \<Rightarrow> Some (default_backoff attempt)
            | Backoff_Not_Function \<Rightarrow> None
            | Backoff_Function f \<Rightarrow> f attempt) of
        None \<Rightarrow> fallback_delay max_backoff attempt
      | Some n \<Rightarrow>
          let b = js_or_zero n in
          if \<not> js_isFinite b \<or> js_less b (Fin 0) then fallback_delay max_backoff attempt else b)"

definition jitter :: "jsnum \<Rightarrow> real \<Rightarrow> jsnum" where
  "jitter ms rnd = js_mul ms (Fin (0.8 + rnd * 0.4))"

definition backoff_delay :: "backoff_option \<Rightarrow> int \<Rightarrow> int \<Rightarrow> real \<Rightarrow> jsnum" where
  "backoff_delay bo max_backoff attempt rnd =
     js_min (Fin (real_of_int max_backoff)) (jitter (base_delay bo max_backoff attempt) rnd)"

section \<open>The attempt orchestrator\<close>

text \<open>
  The options of a call. \<open>retry_if\<close> is \<open>None\<close> when the option is absent (the
  default \<open>() => true\<close> is used); a given \<open>retry_if\<close> is kept as what
  \<open>Boolean(await Promise.race([retry_if(error, context), timer]))\<close> evaluates to at
  each attempt, \<open>None\<close> when the call throws or the timer wins. \<open>signal_given\<close> says
  whether the caller passed an abort signal. \<open>fallback\<close>: a value that is falsy counts
  as no fallback (\<open>if (fallback)\<close>).
\<close>

datatype 'v fallback_outcome = Fallback_Returns 'v | Fallback_Throws thrown

datatype 'v fallback_option =
    No_Fallback
  | Fallback_Const 'v
  | Fallback_Function "'v fallback_outcome"

record 'v options =
  retries :: jsval
  timeout :: jsval
  max_backoff :: jsval
  retry_if :: "(int \<Rightarrow> bool option) option"
  backoff :: backoff_option
  signal_given :: bool
  circuit_breaker :: "circuit_breaker_config option"
  rate_limit :: "rate_limit_config option"
  fallback :: "'v fallback_option"

text \<open>
  What one attempt reads from outside the program: whether the caller's signal is
  aborted at the top of the iteration; how \<open>await enforce_abort(task(context), ...)\<close>
  settles; the measured duration; whether the combined signal is aborted when the
  failure is caught, and its reason; the clock in \<open>_record_success\<close> or
  \<open>_record_failure\<close>; the random number of the jitter; whether the signal is aborted
  before the backoff wait is over.
\<close>

datatype 'v task_outcome = Resolves 'v | Rejects thrown

datatype abort_reason = Reason_Error string | Reason_Value string | Reason_Falsy

record 'v attempt_env =
  signal_aborted :: bool
  outcome :: "'v task_outcome"
  duration :: real
  combined_aborted :: bool
  reason :: abort_reason
  record_now :: int
  jitter_random :: real
  backoff_aborted :: bool

record 'v run_env =
  task_is_function :: bool
  circuit_now :: int
  rl_steps :: "rl_step list"
  attempts :: "int \<Rightarrow> 'v attempt_env"

text \<open>
  The terminal branch of the \<open>catch\<close> block (\<open>is_aborted || is_last_attempt ||
  !should_retry\<close>): the wrapped error is built, the failure is reported to the circuit
  breaker, and the fallback, if there is one, stands in for the error.
\<close>

definition terminal_message :: "thrown \<Rightarrow> bool \<Rightarrow> abort_reason \<Rightarrow> string" where
  "terminal_message err is_aborted r =
     (if is_aborted then
        (case r of
           Reason_Error m \<Rightarrow> m
         | Reason_Value v \<Rightarrow> v
         | Reason_Falsy \<Rightarrow> ''[!] [AsyncGuardJS] Operation Aborted'')
      else (case message err of
              None \<Rightarrow> ''Async Failure''
            | Some m \<Rightarrow> if m = [] then ''Async Failure'' else m))"

definition terminal_failure ::
  "'v options \<Rightarrow> 'v attempt_env \<Rightarrow> thrown \<Rightarrow> int \<Rightarrow> bool \<Rightarrow> registry \<Rightarrow> 'v run_result" where
  "terminal_failure opts e err attempt is_aborted s =
     (let wrapped_error = Task_Failure (terminal_message err is_aborted (reason e)) err attempt;
          s1 = (case circuit_breaker opts of
                  None \<Rightarrow> s
                | Some cb \<Rightarrow> record_failure cb (record_now e) s);
          used = inc ''asyncguardjs.fallback.used''
                   [(''reason'', LStr (if is_aborted then ''aborted'' else ''exhausted''))] s1
      in case fallback opts of
           No_Fallback \<Rightarrow> (Inl wrapped_error, s1)
         | Fallback_Const v \<Rightarrow> (Inr (Fallback_Value v), used)
         | Fallback_Function (Fallback_Returns v) \<Rightarrow> (Inr (Fallback_Value v), used)
         | Fallback_Function (Fallback_Throws fe) \<Rightarrow>
             (Inl (Fallback_Failed fe wrapped_error attempt),
              inc ''asyncguardjs.fallback.failed'' [] s1))"

text \<open>
  One iteration of \<open>for (let attempt = 1; attempt <= max_attempts; attempt++)\<close>: it
  ends the call (\<open>Done\<close>) or goes on to the next attempt (\<open>Continue\<close>).
  \<open>tmo\<close> is the parsed timeout: the combined signal exists when the caller gave a
  signal or the timeout is not 0.
\<close>

datatype 'v step = Done "'v run_result" | Continue registry

definition attempt_step ::
  "'v options \<Rightarrow> 'v run_env \<Rightarrow> int \<Rightarrow> int \<Rightarrow> int \<Rightarrow> int \<Rightarrow> registry \<Rightarrow> 'v step" where
  "attempt_step opts env max_attempts tmo max_bo attempt s =
     (let e = attempts env attempt;
          s1 = inc ''asyncguardjs.attempt'' [(''attempt'', LNum attempt)] s
      in if signal_given opts \<and> signal_aborted e then Done (Inl Aborted_Before_Start, s1)
         else
           let combined_given = (signal_given opts \<or> tmo \<noteq> 0) in
           case outcome e of
             Resolves v \<Rightarrow>
               (let s2 = (case circuit_breaker opts of
                            None \<Rightarrow> s1
                          | Some cb \<Rightarrow> record_success cb s1)
                in Done (Inr (Task_Value v),
                         observe ''asyncguardjs.task.duration_ms'' (duration e)
                           [(''attempt'', LNum attempt)] s2))
           | Rejects err \<Rightarrow>
               (let is_aborted = (combined_given \<and> combined_aborted e);
                    s2 = inc ''asyncguardjs.failure''
                           [(''attempt'', LNum attempt), (''aborted'', LBool is_aborted)] s1;
                    is_last_attempt = (attempt \<ge> max_attempts);
                    should_retry =
                      (if \<not> is_aborted \<and> \<not> is_last_attempt then
                         (case retry_if opts of
                            None \<Rightarrow> True
                          | Some f \<Rightarrow> (case f attempt of None \<Rightarrow> False | Some b \<Rightarrow> b))
                       else False)
                in if is_aborted \<or> is_last_attempt \<or> \<not> should_retry then
                     Done (terminal_failure opts e err attempt is_aborted s2)
                   else
                     let s3 = inc ''asyncguardjs.retry'' [(''attempt'', LNum attempt)] s2;
                         delay = backoff_delay (backoff opts) max_bo attempt (jitter_random e)
                     in if js_less (Fin 0) delay \<and> combined_given \<and> backoff_aborted e then
                          Done (Inl (Aborted_During_Backoff attempt), s3)
                        else Continue s3))"

function attempt_loop ::
  "'v options \<Rightarrow> 'v run_env \<Rightarrow> int \<Rightarrow> int \<Rightarrow> int \<Rightarrow> int \<Rightarrow> registry \<Rightarrow> 'v run_result" where
  "attempt_loop opts env max_attempts tmo max_bo attempt s =
     (if attempt \<le> max_attempts then
        (case attempt_step opts env max_attempts tmo max_bo attempt s of
           Done r \<Rightarrow> r
         | Continue s' \<Rightarrow> attempt_loop opts env max_attempts tmo max_bo (attempt + 1) s')
      else (Inr Returned_Undefined, s))"
  by pat_completeness auto
termination
  by (relation "measure (\<lambda>(opts, env, max_attempts, tmo, max_bo, attempt, s). nat (max_attempts + 1 - attempt))")
     auto

declare attempt_loop.simps [simp del]

text \<open>
  The checks of the \<open>circuit_breaker\<close> and \<open>rate_limit\<close> options. A field that is
  given but is not an integer is \<open>None\<close> in \<open>max_requests\<close> and \<open>window_ms\<close>; the
  optional fields of the circuit breaker are \<open>None\<close> when absent.
\<close>

definition check_circuit_breaker ::
  "circuit_breaker_config \<Rightarrow> int \<Rightarrow> registry \<Rightarrow> (guard_error + unit) \<times> registry" where
  "check_circuit_breaker cb now s =
     (if (case threshold cb of None \<Rightarrow> False | Some t \<Rightarrow> t < 1) then (Inl Threshold_Invalid, s)
      else if (case window cb of None \<Rightarrow> False | Some w \<Rightarrow> w < 1000) then (Inl Window_Invalid, s)
      else if (case recovery cb of None \<Rightarrow> False | Some r \<Rightarrow> r < 1000) then (Inl Recovery_Invalid, s)
      else case is_circuit_open cb now s of
             (True, s1) \<Rightarrow> (Inl Circuit_Is_Open, s1)
           | (False, s1) \<Rightarrow> (Inr (), s1))"

definition admit_rate_limit ::
  "rate_limit_config \<Rightarrow> bool \<Rightarrow> rl_step list \<Rightarrow> registry \<Rightarrow> ((guard_error + unit) \<times> registry) option" where
  "admit_rate_limit rl sig steps s =
     (if (case max_requests rl of None \<Rightarrow> True | Some m \<Rightarrow> m < 1) then Some (Inl Max_Requests_Invalid, s)
      else if (case window_ms rl of None \<Rightarrow> True | Some w \<Rightarrow> w < 1) then Some (Inl Window_Ms_Invalid, s)
      else rate_limit_loop rl sig steps s)"

text \<open>
  The \<open>try\<close> block of \<open>run\<close>. Its first part checks the options and consults the
  circuit and the rate limiter (\<open>admission\<close>: \<open>Inl\<close> is the error thrown there,
  \<open>None\<close> a call still queued on the rate limiter); its second part makes the
  attempts. A \<open>circuit_breaker\<close> or \<open>rate_limit\<close> option that is given but is not an
  object is not represented.
\<close>

definition admission ::
  "'v options \<Rightarrow> 'v run_env \<Rightarrow> registry \<Rightarrow> ((guard_error + unit) \<times> registry) option" where
  "admission opts env s =
     (case backoff opts of
        Backoff_Not_Function \<Rightarrow> Some (Inl Backoff_Not_A_Function, s)
      | _ \<Rightarrow>
        (case (case circuit_breaker opts of
                 None \<Rightarrow> (Inr (), s)
               | Some cb \<Rightarrow> check_circuit_breaker cb (circuit_now env) s) of
           (Inl err, s1) \<Rightarrow> Some (Inl err, s1)
         | (Inr _, s1) \<Rightarrow>
             (case rate_limit opts of
                None \<Rightarrow> Some (Inr (), s1)
              | Some rl \<Rightarrow> admit_rate_limit rl (signal_given opts) (rl_steps env) s1)))"

definition run_body :: "'v options \<Rightarrow> 'v run_env \<Rightarrow> registry \<Rightarrow> 'v run_result option" where
  "run_body opts env s =
     (let retries_n = parse_safe_number (retries opts) 0 0 50;
          timeout_n = parse_safe_number (timeout opts) 0 0 300000;
          max_backoff_n = parse_safe_number (max_backoff opts) 5000 0 60000
      in case admission opts env s of
           None \<Rightarrow> None
         | Some (Inl err, s1) \<Rightarrow> Some (Inl err, s1)
         | Some (Inr _, s1) \<Rightarrow>
             Some (attempt_loop opts env (min (retries_n + 1) 51) timeout_n max_backoff_n 1 s1))"

text \<open>
  \<open>run(task, options)\<close>. Before the \<open>try\<close> block the task is checked to be a
  function, the in-flight counter is compared with the ceiling and then incremented
  (\<open>run_enter\<close>: \<open>Inl\<close> is the error thrown there, \<open>Inr\<close> the registry with the call
  counted in); the \<open>finally\<close> block takes the call off the counter (\<open>run_release\<close>).
  \<^verbatim>\<open>
  if (typeof task !== "function") { throw new TypeError(...); }
  if (this._active_operations >= this._max_concurrent_operations) { throw new AsyncGuardJS(...); }
  this._active_operations++;
  try { ... } finally { this._active_operations--; }
  \<close>
  \<open>None\<close> as the result of \<open>run\<close> is a call that has not returned.
\<close>

definition run_admit :: "registry \<Rightarrow> registry" where
  "run_admit s = s\<lparr>active_operations := active_operations s + 1\<rparr>"

definition run_enter :: "bool \<Rightarrow> registry \<Rightarrow> guard_error + registry" where
  "run_enter task_is_fn s =
     (if \<not> task_is_fn then Inl Task_Not_Function
      else if active_operations s \<ge> max_concurrent_operations then
        Inl (Max_Concurrent_Exceeded (active_operations s))
      else Inr (run_admit s))"

definition run_release :: "registry \<Rightarrow> registry" where
  "run_release s = s\<lparr>active_operations := active_operations s - 1\<rparr>"

definition run :: "'v options \<Rightarrow> 'v run_env \<Rightarrow> registry \<Rightarrow> 'v run_result option" where
  "run opts env s =
     (case run_enter (task_is_function env) s of
        Inl err \<Rightarrow> Some (Inl err, s)
      | Inr s1 \<Rightarrow>
          (case run_body opts env s1 of
             None \<Rightarrow> None
           | Some (r, s') \<Rightarrow> Some (r, run_release s')))"

text \<open>
  Calls in flight together. JavaScript runs each call without interruption from one
  \<open>await\<close> to the next, so the registry goes through entries of calls (\<open>run_enter\<close>,
  the check and the increment of \<open>run\<close>, which no \<open>await\<close> separates), releases
  (\<open>run_release\<close>, the \<open>finally\<close> block of a call that has entered) and steps in
  between that leave the counter alone, as every step of the \<open>try\<close> block does.
  \<open>in_flight s n\<close>: the registry \<open>s\<close> is reached with \<open>n\<close> calls entered and not yet
  released.
\<close>

inductive in_flight :: "registry \<Rightarrow> nat \<Rightarrow> bool" where
  start: "in_flight initial_registry 0"
| enter: "in_flight s n \<Longrightarrow> run_enter task_is_fn s = Inr s' \<Longrightarrow> in_flight s' (Suc n)"
| work: "in_flight s n \<Longrightarrow> active_operations s' = active_operations s \<Longrightarrow> in_flight s' n"
| release: "in_flight s (Suc n) \<Longrightarrow> in_flight (run_release s) n"

text \<open>
  A call whose signals are never aborted, and a task that fails at every attempt.
\<close>

definition never_aborted :: "'v run_env \<Rightarrow> bool" where
  "never_aborted env \<longleftrightarrow>
     (\<forall>a. \<not> signal_aborted (attempts env a) \<and> \<not> combined_aborted (attempts env a) \<and>
          \<not> backoff_aborted (attempts env a))"

definition always_fails :: "'v run_env \<Rightarrow> bool" where
  "always_fails env \<longleftrightarrow> (\<forall>a. \<exists>err. outcome (attempts env a) = Rejects err)"

text \<open>
  A counter key is the metric name, followed by the labels in braces when there are any
  (\<open>_get_metric_key\<close>): the metric name of a key is what precedes the first brace.
  \<open>counter_total nm s\<close> is the sum of the counters of the registry whose key has the
  metric name \<open>nm\<close>, the total of the metric over all its label sets.
\<close>

definition metric_name :: "string \<Rightarrow> string" where
  "metric_name key = takeWhile (\<lambda>c. c \<noteq> CHR ''{'') key"

definition counter_total :: "string \<Rightarrow> registry \<Rightarrow> int" where
  "counter_total nm s =
     sum_list (map (\<lambda>(key, v). if metric_name key = nm then v else 0) (counters s))"

section \<open>Derived forms used in the proofs\<close>

text \<open>
  What \<open>_record_failure\<close> does to the circuit object, and what \<open>_is_circuit_open\<close>
  does to it.
\<close>

definition new_circuit :: circuit where
  "new_circuit = \<lparr>failures = [], state = CLOSED, opened_at = None\<rparr>"

definition failure_step :: "circuit_breaker_config \<Rightarrow> int \<Rightarrow> circuit \<Rightarrow> circuit" where
  "failure_step cfg now c =
     (let c1 = c\<lparr>failures := dropWhile (\<lambda>t. t < now - js_or (window cfg) 60000) (failures c @ [now])\<rparr>
      in if int (length (failures c1)) \<ge> js_or (threshold cfg) 5 \<and> state c1 = CLOSED
         then c1\<lparr>state := OPEN, opened_at := Some now\<rparr> else c1)"

definition recovery_step :: "circuit_breaker_config \<Rightarrow> int \<Rightarrow> circuit \<Rightarrow> circuit" where
  "recovery_step cfg now c =
     (if state c = OPEN \<and>
         now - (case opened_at c of None \<Rightarrow> 0 | Some t \<Rightarrow> t) \<ge> js_or (recovery cfg) 30000
      then c\<lparr>state := HALF_OPEN\<rparr> else c)"

text \<open>
  A key that \<open>_sanitize_name\<close> can have produced: at most 100 characters, none of them
  offending. Every key of the circuit registry is one, since \<open>_record_failure\<close> is the
  only function that adds a key.
\<close>

definition sanitized_key :: "string \<Rightarrow> bool" where
  "sanitized_key k \<longleftrightarrow> length k \<le> 100 \<and> \<not> list_ex offending k"

definition circuit_keys_sanitized :: "registry \<Rightarrow> bool" where
  "circuit_keys_sanitized s \<longleftrightarrow> list_all sanitized_key (map fst (circuits s))"

section \<open>Example inputs\<close>

definition api_cfg :: circuit_breaker_config where
  "api_cfg = \<lparr>name = Some ''api'', threshold = Some 1, window = None, recovery = None\<rparr>"

definition probe_cfg :: circuit_breaker_config where
  "probe_cfg = \<lparr>name = Some ''api'', threshold = Some 2, window = None, recovery = None\<rparr>"

definition half_open_registry :: registry where
  "half_open_registry =
     snd (is_circuit_open probe_cfg 30001
            (record_failure probe_cfg 1 (record_failure probe_cfg 0 initial_registry)))"

definition colon_cfg :: circuit_breaker_config where
  "colon_cfg = \<lparr>name = Some ''db:main'', threshold = None, window = None, recovery = None\<rparr>"

text \<open>
  The limiter \<open>_can_proceed_rate_limit\<close> creates for a new key, and what its pruning
  does to a limiter.
\<close>

definition new_limiter :: "rate_limit_config \<Rightarrow> limiter" where
  "new_limiter cfg = \<lparr>requests = [],
      configuration = Some \<lparr>max_requests = max_requests cfg, window_ms = window_ms cfg\<rparr>\<rparr>"

definition pruned :: "rate_limit_config \<Rightarrow> int \<Rightarrow> limiter \<Rightarrow> limiter" where
  "pruned cfg now l =
     l\<lparr>requests := filter (\<lambda>timestamp. timestamp \<ge> now - js_or (window_ms cfg) 1000) (requests l)\<rparr>"

text \<open>
  Two \<open>rate_limit\<close> options under the name \<open>api\<close>, of one and of two requests per
  second, and the registry after one admitted call with the first of them at time 0.
\<close>

definition strict_cfg :: rate_limit_config where
  "strict_cfg = \<lparr>max_requests = Some 1, window_ms = Some 1000,
                  rl_name = Some ''api'', queue = False, queue_max_wait_ms = None\<rparr>"

definition loose_cfg :: rate_limit_config where
  "loose_cfg = \<lparr>max_requests = Some 2, window_ms = Some 1000,
                 rl_name = Some ''api'', queue = False, queue_max_wait_ms = None\<rparr>"

definition one_request_registry :: registry where
  "one_request_registry =
     register_rate_limit_request strict_cfg 0
       (snd (can_proceed_rate_limit strict_cfg 0 initial_registry))"

definition step0 :: rl_step where
  "step0 = \<lparr>check_now = 0, register_now = 0, wait_now = 0, random_spread = 0,
            random_stagger = 0, queue_aborted = False\<rparr>"

text \<open>
  The two metrics the attempt loop counts attempts and retries under, and the result of
  the terminal branch of the loop, which does not depend on the registry.
\<close>

definition loop_metric :: "string \<Rightarrow> bool" where
  "loop_metric nm \<longleftrightarrow> nm = ''asyncguardjs.attempt'' \<or> nm = ''asyncguardjs.retry''"

definition terminal_result ::
  "'v options \<Rightarrow> 'v attempt_env \<Rightarrow> thrown \<Rightarrow> int \<Rightarrow> bool \<Rightarrow> guard_error + 'v run_value" where
  "terminal_result opts e err attempt is_aborted =
     (case fallback opts of
        No_Fallback \<Rightarrow> Inl (Task_Failure (terminal_message err is_aborted (reason e)) err attempt)
      | Fallback_Const v \<Rightarrow> Inr (Fallback_Value v)
      | Fallback_Function (Fallback_Returns v) \<Rightarrow> Inr (Fallback_Value v)
      | Fallback_Function (Fallback_Throws fe) \<Rightarrow>
          Inl (Fallback_Failed fe
                 (Task_Failure (terminal_message err is_aborted (reason e)) err attempt) attempt))"

text \<open>
  What \<open>_inc(name, 1, labels)\<close> does to the counters, as a function of the map alone
  (\<open>bump\<close>), and the total of a metric over a counters map (\<open>total_of\<close>).
  \<open>adds_others k cs cs'\<close>: the counters \<open>cs'\<close> hold at most \<open>k\<close> keys more than \<open>cs\<close>
  and, when \<open>k\<close> more keys fit under the ceiling of the map (so that no key has been
  evicted), the totals of the two metrics of the attempt loop are those of \<open>cs\<close>. It is
  what the circuit breaker, the rate limiter and the terminal branch do to the counters:
  they count under metric names of their own.
\<close>

definition total_of :: "string \<Rightarrow> (string \<times> int) list \<Rightarrow> int" where
  "total_of nm cs = sum_list (map (\<lambda>(key, v). if metric_name key = nm then v else 0) cs)"

definition bump :: "string \<Rightarrow> labels \<Rightarrow> (string \<times> int) list \<Rightarrow> (string \<times> int) list" where
  "bump nm l cs0 =
     (let key = get_metric_key nm l;
          cs = (if length cs0 \<ge> max_metric_keys then delete_first_key cs0 else cs0)
      in AList.update key ((case map_of cs key of None \<Rightarrow> 0 | Some c \<Rightarrow> c) + 1) cs)"

definition adds_others :: "nat \<Rightarrow> (string \<times> int) list \<Rightarrow> (string \<times> int) list \<Rightarrow> bool" where
  "adds_others k cs cs' \<longleftrightarrow>
     length cs' \<le> length cs + k \<and>
     (length cs + k \<le> max_metric_keys \<longrightarrow>
        (\<forall>nm. loop_metric nm \<longrightarrow> total_of nm cs' = total_of nm cs))"

text \<open>
  A backoff function that throws; a task that throws \<open>boom\<close> at every attempt and one
  that resolves to \<open>ok\<close> after 5 ms, with no signal ever aborted; the options
  \<open>{ retries: 2 }\<close>; and a registry with 100 calls in flight.
\<close>

definition thrower :: backoff_option where
  "thrower = Backoff_Function (\<lambda>a. None)"

definition failing_attempt :: "string attempt_env" where
  "failing_attempt =
     \<lparr>signal_aborted = False, outcome = Rejects (Thrown (Some ''boom'')), duration = 0,
      combined_aborted = False, reason = Reason_Falsy, record_now = 0, jitter_random = 0,
      backoff_aborted = False\<rparr>"

definition failing_env :: "string run_env" where
  "failing_env = \<lparr>task_is_function = True, circuit_now = 0, rl_steps = [],
                  attempts = (\<lambda>a. failing_attempt)\<rparr>"

definition ok_env :: "string run_env" where
  "ok_env = \<lparr>task_is_function = True, circuit_now = 0, rl_steps = [],
             attempts = (\<lambda>a. failing_attempt\<lparr>outcome := Resolves ''ok'', duration := 5\<rparr>)\<rparr>"

definition two_retries :: "string options" where
  "two_retries =
     \<lparr>retries = JNum (Fin 2), timeout = Undefined, max_backoff = Undefined, retry_if = None,
      backoff = Backoff_Default, signal_given = False, circuit_breaker = None,
      rate_limit = None, fallback = No_Fallback\<rparr>"

definition full_registry :: registry where
  "full_registry = initial_registry\<lparr>active_operations := 100\<rparr>"

text \<open>
  The options of a call guarded by the circuit \<open>db:main\<close>; the clock of a call that
  reaches the rate limiter at time 1; and the registry after the limiter \<open>api\<close>, created
  with \<open>max_requests: 1\<close> and holding the request of time 0, has admitted at time 1 a
  call that passes \<open>max_requests: 2\<close>.
\<close>

definition colon_opts :: "string options" where
  "colon_opts = two_retries\<lparr>circuit_breaker := Some colon_cfg\<rparr>"

definition step1 :: rl_step where
  "step1 = \<lparr>check_now = 1, register_now = 1, wait_now = 1, random_spread = 0,
            random_stagger = 0, queue_aborted = False\<rparr>"

definition two_request_registry :: registry where
  "two_request_registry =
     register_rate_limit_request loose_cfg 1
       (snd (can_proceed_rate_limit loose_cfg 1 one_request_registry))"

section \<open>Projections of the registry operations\<close>

lemma inc_fields [simp]:
  "active_operations (inc nm l s) = active_operations s"
  "circuits (inc nm l s) = circuits s"
  "circuit_access_order (inc nm l s) = circuit_access_order s"
  "rate_limiters (inc nm l s) = rate_limiters s"
  "rate_limiter_access_order (inc nm l s) = rate_limiter_access_order s"
  "timers (inc nm l s) = timers s"
  by (simp_all add: inc_def inc_by_def Let_def)

lemma observe_fields [simp]:
  "active_operations (observe nm v l s) = active_operations s"
  "circuits (observe nm v l s) = circuits s"
  "circuit_access_order (observe nm v l s) = circuit_access_order s"
  "rate_limiters (observe nm v l s) = rate_limiters s"
  "rate_limiter_access_order (observe nm v l s) = rate_limiter_access_order s"
  "counters (observe nm v l s) = counters s"
  by (simp_all add: observe_def Let_def)

lemma get_circuit_key_fields [simp]:
  "fst (get_circuit_key cfg s) = key_of_name (name cfg)"
  "circuits (snd (get_circuit_key cfg s)) = circuits s"
  "active_operations (snd (get_circuit_key cfg s)) = active_operations s"
  "rate_limiters (snd (get_circuit_key cfg s)) = rate_limiters s"
  "rate_limiter_access_order (snd (get_circuit_key cfg s)) = rate_limiter_access_order s"
  "timers (snd (get_circuit_key cfg s)) = timers s"
  "counters (snd (get_circuit_key cfg s)) = counters s"
  by (simp_all add: get_circuit_key_def Let_def)

lemma circuits_initial [simp]: "circuits initial_registry = []"
  by (simp add: initial_registry_def)

lemma circuits_record_failure:
  "circuits (record_failure cfg now s) =
     (let key = key_of_name (name cfg);
          cs = circuits (maybe_cleanup_circuits (snd (get_circuit_key cfg s)));
          c = (case map_of cs key of None \<Rightarrow> new_circuit | Some c \<Rightarrow> c)
      in AList.update key (failure_step cfg now c) cs)"
  by (auto simp add: record_failure_def failure_step_def new_circuit_def Let_def split_beta
      split: option.splits)

lemma maybe_cleanup_circuits_not_full:
  "length (circuits s) < max_circuits \<Longrightarrow> maybe_cleanup_circuits s = s"
  by (simp add: maybe_cleanup_circuits_def)

lemma circuits_record_failure_not_full:
  "length (circuits s) < max_circuits \<Longrightarrow>
   circuits (record_failure cfg now s) =
     AList.update (key_of_name (name cfg))
       (failure_step cfg now (case map_of (circuits s) (key_of_name (name cfg)) of
                                None \<Rightarrow> new_circuit | Some c \<Rightarrow> c)) (circuits s)"
  by (simp add: circuits_record_failure maybe_cleanup_circuits_not_full Let_def)

lemma is_circuit_open_eq:
  "fst (is_circuit_open cfg now s) =
     (case map_of (circuits s) (key_of_name (name cfg)) of
        None \<Rightarrow> False | Some c \<Rightarrow> state (recovery_step cfg now c) = OPEN)"
  "circuits (snd (is_circuit_open cfg now s)) =
     (case map_of (circuits s) (key_of_name (name cfg)) of
        None \<Rightarrow> circuits s
      | Some c \<Rightarrow> AList.update (key_of_name (name cfg)) (recovery_step cfg now c) (circuits s))"
  by (simp_all add: is_circuit_open_def recovery_step_def Let_def split_beta split: option.splits)

lemma circuits_record_success:
  "circuits (record_success cfg s) =
     (case map_of (circuits s) (key_of_name (name cfg)) of
        None \<Rightarrow> circuits s
      | Some c \<Rightarrow> if state c = HALF_OPEN then AList.delete (key_of_name (name cfg)) (circuits s)
                  else circuits s)"
  by (simp add: record_success_def Let_def split_beta split: option.splits)

lemma get_circuit_status_fst:
  "fst (get_circuit_status nm s) =
     map_option (\<lambda>c. Circuit_Status (state c) (length (failures c)) (opened_at c))
       (map_of (circuits s) nm)"
  by (simp add: get_circuit_status_def split: option.splits)

lemma key_api: "key_of_name (name api_cfg) = ''api''"
  by (simp add: api_cfg_def key_of_name_def sanitize_name_def offending_def)

lemma key_probe: "key_of_name (name probe_cfg) = ''api''"
  by (simp add: probe_cfg_def key_of_name_def sanitize_name_def offending_def)

lemma circuits_api_opened:
  "circuits (record_failure api_cfg 0 initial_registry) =
     [(''api'', \<lparr>failures = [0], state = OPEN, opened_at = Some 0\<rparr>)]"
  by (simp add: circuits_record_failure_not_full max_circuits_def key_api new_circuit_def failure_step_def)
     (simp add: api_cfg_def js_or_def)

lemma circuits_half_open_registry:
  "circuits half_open_registry =
     [(''api'', \<lparr>failures = [0, 1], state = HALF_OPEN, opened_at = Some 1\<rparr>)]"
proof -
  have 1: "circuits (record_failure probe_cfg 0 initial_registry) =
             [(''api'', \<lparr>failures = [0], state = CLOSED, opened_at = None\<rparr>)]"
    by (simp add: circuits_record_failure_not_full max_circuits_def key_probe new_circuit_def failure_step_def)
       (simp add: probe_cfg_def js_or_def)
  have 2: "circuits (record_failure probe_cfg 1 (record_failure probe_cfg 0 initial_registry)) =
             [(''api'', \<lparr>failures = [0, 1], state = OPEN, opened_at = Some 1\<rparr>)]"
    by (simp add: circuits_record_failure_not_full 1 max_circuits_def key_probe failure_step_def)
       (simp add: probe_cfg_def js_or_def)
  show ?thesis
    by (simp add: half_open_registry_def is_circuit_open_eq 2 key_probe recovery_step_def)
       (simp add: probe_cfg_def js_or_def)
qed

section \<open>Circuit breaker: recovery\<close>

text \<open>
  C2. For every circuit whose state is OPEN, once at least \<open>recovery\<close> ms have elapsed
  since \<open>opened_at\<close>, the next query (\<open>_is_circuit_open\<close>) answers that the circuit is
  not open and leaves it HALF_OPEN. When the task of that call then succeeds
  (\<open>_record_success\<close>, in any registry \<open>s'\<close> whose circuits are as the query left them),
  the entry of the circuit is deleted, and \<open>get_circuit_status\<close> for its key returns
  \<open>null\<close>, not a status with state CLOSED and 0 failures.
\<close>

theorem half_open_success_deletes_circuit:
  assumes "map_of (circuits s) (key_of_name (name cfg)) = Some c"
    and "state c = OPEN" and "opened_at c = Some t"
    and "now - t \<ge> js_or (recovery cfg) 30000"
    and "circuits s' = circuits (snd (is_circuit_open cfg now s))"
  shows "fst (is_circuit_open cfg now s) = False \<and>
         map_of (circuits (snd (is_circuit_open cfg now s))) (key_of_name (name cfg))
           = Some (c\<lparr>state := HALF_OPEN\<rparr>) \<and>
         map_of (circuits (record_success cfg s')) (key_of_name (name cfg)) = None \<and>
         fst (get_circuit_status (key_of_name (name cfg)) (record_success cfg s')) = None"
  using assms
  by (simp add: is_circuit_open_eq recovery_step_def circuits_record_success get_circuit_status_fst
        AList.update_conv' AList.delete_conv')

theorem half_open_success_deletes_circuit_witness:
  "fst (is_circuit_open api_cfg 30000 (record_failure api_cfg 0 initial_registry)) = False \<and>
   fst (get_circuit_status ''api''
         (record_success api_cfg
            (snd (is_circuit_open api_cfg 30000 (record_failure api_cfg 0 initial_registry))))) = None"
  using half_open_success_deletes_circuit [of "record_failure api_cfg 0 initial_registry" api_cfg
      "\<lparr>failures = [0], state = OPEN, opened_at = Some 0\<rparr>" 0 30000
      "snd (is_circuit_open api_cfg 30000 (record_failure api_cfg 0 initial_registry))"]
  by (simp add: circuits_api_opened key_api) (simp add: api_cfg_def js_or_def)

text \<open>
  As the specification words it (the status is CLOSED with 0 failures), the property
  fails on the circuit \<open>api\<close> (threshold 1): a failure at time 0
  opens it, the query at time 30000 lets the call through, the success closes it, and the
  status is then \<open>null\<close>.
\<close>

theorem status_after_recovery_is_null:
  "map_of (circuits (record_failure api_cfg 0 initial_registry)) ''api'' =
     Some \<lparr>failures = [0], state = OPEN, opened_at = Some 0\<rparr> \<and>
   fst (is_circuit_open api_cfg 30000 (record_failure api_cfg 0 initial_registry)) = False \<and>
   fst (get_circuit_status ''api''
         (record_success api_cfg
            (snd (is_circuit_open api_cfg 30000 (record_failure api_cfg 0 initial_registry))))) = None \<and>
   fst (get_circuit_status ''api''
         (record_success api_cfg
            (snd (is_circuit_open api_cfg 30000 (record_failure api_cfg 0 initial_registry)))))
     \<noteq> Some (Circuit_Status CLOSED 0 None)"
  by (simp add: is_circuit_open_eq circuits_record_success get_circuit_status_fst
        circuits_api_opened key_api recovery_step_def)
     (simp add: api_cfg_def js_or_def)

section \<open>Circuit breaker: a failed probe\<close>

text \<open>
  C4. When a failure is recorded for a circuit that is in the registry (and the registry
  holds fewer than its 1000 circuits, so that nothing is evicted), the timestamp is
  appended and the timestamps older than \<open>window\<close> ms are dropped from the front; the
  circuit opens only if its state is CLOSED and the count has reached \<open>threshold\<close>. A
  circuit that is HALF_OPEN therefore stays HALF_OPEN after a failed probe, whatever the
  count, and its \<open>opened_at\<close> is not changed.
\<close>

theorem record_failure_state:
  assumes "map_of (circuits s) (key_of_name (name cfg)) = Some c"
    and "length (circuits s) < max_circuits"
  shows "map_of (circuits (record_failure cfg now s)) (key_of_name (name cfg)) =
           Some (c\<lparr>failures := dropWhile (\<lambda>t. t < now - js_or (window cfg) 60000) (failures c @ [now]),
                   state := (if state c = CLOSED \<and>
                                int (length (dropWhile (\<lambda>t. t < now - js_or (window cfg) 60000)
                                               (failures c @ [now])))
                                  \<ge> js_or (threshold cfg) 5
                             then OPEN else state c),
                   opened_at := (if state c = CLOSED \<and>
                                    int (length (dropWhile (\<lambda>t. t < now - js_or (window cfg) 60000)
                                                   (failures c @ [now])))
                                      \<ge> js_or (threshold cfg) 5
                                 then Some now else opened_at c)\<rparr>)"
  using assms
  by (simp add: circuits_record_failure_not_full failure_step_def AList.update_conv' Let_def)

theorem record_failure_state_witness:
  "map_of (circuits (record_failure probe_cfg 30002 half_open_registry)) (key_of_name (name probe_cfg)) =
     Some \<lparr>failures = [0, 1, 30002], state = HALF_OPEN, opened_at = Some 1\<rparr>"
  using record_failure_state [of half_open_registry probe_cfg
           "\<lparr>failures = [0, 1], state = HALF_OPEN, opened_at = Some 1\<rparr>" 30002]
  by (simp add: circuits_half_open_registry key_probe max_circuits_def) (simp add: probe_cfg_def js_or_def)

text \<open>
  As the specification words it (a failed probe with a saturated window re-opens the
  circuit), the property fails on the circuit \<open>api\<close> with threshold 2: failures at times 0
  and 1 open it, the query at time 30001 makes it HALF_OPEN, and the failed probe at time
  30002 leaves three failures within the window of 60000 ms and the state HALF_OPEN.
\<close>

theorem half_open_failure_not_reopened:
  "map_of (circuits half_open_registry) ''api'' =
     Some \<lparr>failures = [0, 1], state = HALF_OPEN, opened_at = Some 1\<rparr> \<and>
   map_of (circuits (record_failure probe_cfg 30002 half_open_registry)) ''api'' =
     Some \<lparr>failures = [0, 1, 30002], state = HALF_OPEN, opened_at = Some 1\<rparr> \<and>
   map_option state (map_of (circuits (record_failure probe_cfg 30002 half_open_registry)) ''api'')
     \<noteq> Some OPEN"
  by (simp add: circuits_record_failure_not_full circuits_half_open_registry max_circuits_def
        key_probe failure_step_def)
     (simp add: probe_cfg_def js_or_def)

section \<open>Circuit names and keys\<close>

lemma sanitized_key_of_name: "sanitized_key (key_of_name n)"
proof (cases n)
  case None
  then show ?thesis
    by (simp add: key_of_name_def sanitize_name_def sanitized_key_def offending_def)
next
  case (Some nm)
  have "\<not> list_ex offending (map (\<lambda>c. if offending c then CHR ''_'' else c) (take 100 nm))"
    by (auto simp: list_ex_iff offending_def)
  with Some show ?thesis
    by (simp add: key_of_name_def sanitize_name_def sanitized_key_def Let_def)
       (simp add: offending_def)
qed

lemma key_of_bad_name:
  assumes "list_ex offending nm \<or> length nm > 100"
  shows "key_of_name (Some nm) = map (\<lambda>c. if offending c then CHR ''_'' else c) (take 100 nm)"
    and "key_of_name (Some nm) \<noteq> nm"
    and "\<not> sanitized_key nm"
proof -
  from assms have "nm \<noteq> []" by auto
  then show "key_of_name (Some nm) = map (\<lambda>c. if offending c then CHR ''_'' else c) (take 100 nm)"
    by (simp add: key_of_name_def sanitize_name_def Let_def)
  from assms show "\<not> sanitized_key nm" by (auto simp: sanitized_key_def)
  with sanitized_key_of_name [of "Some nm"] show "key_of_name (Some nm) \<noteq> nm" by auto
qed

lemma list_all_keys_delete:
  "list_all P (map fst al) \<Longrightarrow> list_all P (map fst (AList.delete k al))"
  by (auto simp add: AList.delete_keys list_all_iff)

lemma list_all_keys_update:
  "list_all P (map fst al) \<Longrightarrow> P k \<Longrightarrow> list_all P (map fst (AList.update k v al))"
  using AList.dom_update [of k v al] by (auto simp: list_all_iff)

lemma keys_sanitized_cleanup:
  "circuit_keys_sanitized s \<Longrightarrow>
   list_all sanitized_key (map fst (circuits (maybe_cleanup_circuits s)))"
  by (auto simp: circuit_keys_sanitized_def maybe_cleanup_circuits_def Let_def list_all_keys_delete
      split: list.splits)

lemma keys_sanitized_record_failure:
  assumes "circuit_keys_sanitized s"
  shows "circuit_keys_sanitized (record_failure cfg now s)"
proof -
  have "circuit_keys_sanitized (snd (get_circuit_key cfg s))"
    using assms by (simp add: circuit_keys_sanitized_def)
  then have "list_all sanitized_key
               (map fst (circuits (maybe_cleanup_circuits (snd (get_circuit_key cfg s)))))"
    by (rule keys_sanitized_cleanup)
  then show ?thesis
    by (simp add: circuit_keys_sanitized_def circuits_record_failure Let_def
          list_all_keys_update sanitized_key_of_name)
qed

lemma keys_sanitized_others:
  assumes "circuit_keys_sanitized s"
  shows "circuit_keys_sanitized (snd (is_circuit_open cfg now s))"
    and "circuit_keys_sanitized (record_success cfg s)"
    and "circuit_keys_sanitized (reset_circuit nm s)"
    and "circuit_keys_sanitized (snd (get_circuit_status nm s))"
    and "circuit_keys_sanitized initial_registry"
  using assms
  by (auto simp: circuit_keys_sanitized_def is_circuit_open_eq circuits_record_success reset_circuit_def
        get_circuit_status_def list_all_keys_update list_all_keys_delete sanitized_key_of_name
      split: option.splits)

text \<open>
  What \<open>_record_failure\<close> leaves behind for a name that sanitizing changes: an entry
  under the sanitized name, and none under the name as given, in a registry whose keys
  were all sanitized before.
\<close>

lemma record_failure_key:
  assumes "circuit_keys_sanitized s"
    and "name cfg = Some nm"
    and "list_ex offending nm \<or> length nm > 100"
  shows "key_of_name (name cfg) = map (\<lambda>c. if offending c then CHR ''_'' else c) (take 100 nm) \<and>
         key_of_name (name cfg) \<noteq> nm \<and>
         map_of (circuits (record_failure cfg now s)) (key_of_name (name cfg)) \<noteq> None \<and>
         map_of (circuits (record_failure cfg now s)) nm = None \<and>
         AList.delete nm (circuits (record_failure cfg now s)) = circuits (record_failure cfg now s) \<and>
         circuit_keys_sanitized (record_failure cfg now s)"
proof -
  let ?s = "record_failure cfg now s"
  have inv: "circuit_keys_sanitized ?s"
    using assms(1) by (rule keys_sanitized_record_failure)
  have "nm \<notin> fst ` set (circuits ?s)"
    using inv key_of_bad_name(3) [OF assms(3)]
    by (auto simp: circuit_keys_sanitized_def list_all_iff)
  then have miss: "map_of (circuits ?s) nm = None"
    and del: "AList.delete nm (circuits ?s) = circuits ?s"
    by (simp_all add: map_of_eq_None_iff)
  have stored: "map_of (circuits ?s) (key_of_name (name cfg)) \<noteq> None"
    by (simp add: circuits_record_failure Let_def AList.update_conv')
  show ?thesis
    using key_of_bad_name(1,2) [OF assms(3)] assms(2) inv miss del stored
    by simp
qed

section \<open>Option parsing\<close>

text \<open>
  C7. The numeric options are parsed into their ranges before any attempt: the result
  for \<open>retries\<close> lies in [0,50], for \<open>timeout\<close> in [0,300000] and for \<open>max_backoff\<close>
  in [0,60000], for every value the option is given. A finite value inside the range is
  rounded down; every other value (absent, NaN, infinite, below the minimum or above the
  maximum) is replaced by the default of the option (0, 0 and 5000), not by the nearest
  bound.
\<close>

theorem parse_safe_number_ranges:
  "0 \<le> parse_safe_number v 0 0 50 \<and> parse_safe_number v 0 0 50 \<le> 50 \<and>
   0 \<le> parse_safe_number v 0 0 300000 \<and> parse_safe_number v 0 0 300000 \<le> 300000 \<and>
   0 \<le> parse_safe_number v 5000 0 60000 \<and> parse_safe_number v 5000 0 60000 \<le> 60000 \<and>
   parse_safe_number v d mn mx =
     (case Number_js v of
        Fin x \<Rightarrow> if mn \<le> x \<and> x \<le> mx then \<lfloor>x\<rfloor> else d
      | _ \<Rightarrow> d)"
proof -
  have r: "0 \<le> parse_safe_number v d 0 (real_of_int hi) \<and>
           parse_safe_number v d 0 (real_of_int hi) \<le> hi"
    if "0 \<le> d" "d \<le> hi" for d hi :: int
  proof (cases "Number_js v")
    case (Fin x)
    show ?thesis
    proof (cases "x < 0 \<or> x > real_of_int hi")
      case True
      with Fin that show ?thesis by (simp add: parse_safe_number_def)
    next
      case False
      then have "0 \<le> \<lfloor>x\<rfloor>" and "\<lfloor>x\<rfloor> \<le> hi" by (simp_all add: floor_le_iff)
      with Fin False show ?thesis by (simp add: parse_safe_number_def)
    qed
  qed (use that in \<open>simp_all add: parse_safe_number_def\<close>)
  have c: "parse_safe_number v d mn mx =
     (case Number_js v of
        Fin x \<Rightarrow> if mn \<le> x \<and> x \<le> mx then \<lfloor>x\<rfloor> else d
      | _ \<Rightarrow> d)"
    by (auto simp: parse_safe_number_def split: jsnum.splits)
  from r [of 0 50] r [of 0 300000] r [of 5000 60000] c show ?thesis by simp
qed

text \<open>
  As the specification words it (an out-of-range value yields the nearest bound), the
  property fails: for
  \<open>retries: 100\<close> the result is the default 0, not 50.
\<close>

theorem parse_safe_number_not_clamp:
  "parse_safe_number (JNum (Fin 100)) 0 0 50 = 0 \<and>
   parse_safe_number (JNum (Fin 100)) 0 0 50 \<noteq> 50"
  by (simp add: parse_safe_number_def)

section \<open>Metrics snapshot\<close>

text \<open>
  C3. \<open>reset_metrics()\<close> followed by \<open>get_metrics()\<close>: in a host whose global
  object has no \<open>format\<close> property, \<open>get_metrics\<close> throws a \<open>ReferenceError\<close> in
  every state, so it does not return the empty snapshot; the registries themselves are
  empty after the reset.
\<close>

theorem get_metrics_after_reset_throws:
  "get_metrics None (reset_metrics s) = Inl ReferenceError_format \<and>
   counters (reset_metrics s) = [] \<and> timers (reset_metrics s) = []"
  by (simp add: get_metrics_def reset_metrics_def)

section \<open>Rate limiter: admission\<close>

lemma get_rate_limit_key_fields [simp]:
  "fst (get_rate_limit_key cfg s) = key_of_name (rl_name cfg)"
  "rate_limiters (snd (get_rate_limit_key cfg s)) = rate_limiters s"
  "active_operations (snd (get_rate_limit_key cfg s)) = active_operations s"
  "circuits (snd (get_rate_limit_key cfg s)) = circuits s"
  "circuit_access_order (snd (get_rate_limit_key cfg s)) = circuit_access_order s"
  "timers (snd (get_rate_limit_key cfg s)) = timers s"
  "counters (snd (get_rate_limit_key cfg s)) = counters s"
  by (simp_all add: get_rate_limit_key_def Let_def)

lemma can_proceed_eq:
  "fst (can_proceed_rate_limit cfg now s) =
     (let ls = rate_limiters (maybe_cleanup_rate_limiters (snd (get_rate_limit_key cfg s)));
          l = (case map_of ls (key_of_name (rl_name cfg)) of None \<Rightarrow> new_limiter cfg | Some l \<Rightarrow> l)
      in \<not> int (length (requests (pruned cfg now l))) \<ge> js_or (max_requests cfg) 10)"
  "rate_limiters (snd (can_proceed_rate_limit cfg now s)) =
     (let ls = rate_limiters (maybe_cleanup_rate_limiters (snd (get_rate_limit_key cfg s)));
          l = (case map_of ls (key_of_name (rl_name cfg)) of None \<Rightarrow> new_limiter cfg | Some l \<Rightarrow> l)
      in AList.update (key_of_name (rl_name cfg)) (pruned cfg now l) ls)"
  by (auto simp add: can_proceed_rate_limit_def new_limiter_def pruned_def Let_def split_beta
      split: option.splits)

lemma register_eq:
  "rate_limiters (register_rate_limit_request cfg now s) =
     AList.update (key_of_name (rl_name cfg))
       ((case map_of (rate_limiters s) (key_of_name (rl_name cfg)) of
           None \<Rightarrow> \<lparr>requests = [], configuration = None\<rparr> | Some l \<Rightarrow> l)
        \<lparr>requests := requests (case map_of (rate_limiters s) (key_of_name (rl_name cfg)) of
           None \<Rightarrow> \<lparr>requests = [], configuration = None\<rparr> | Some l \<Rightarrow> l) @ [now]\<rparr>)
       (rate_limiters s)"
  by (simp add: register_rate_limit_request_def Let_def split_beta)

lemma check_then_register:
  assumes "can_proceed_rate_limit cfg now s = (True, s1)"
  shows "\<exists>l. map_of (rate_limiters (register_rate_limit_request cfg now' s1))
                (key_of_name (rl_name cfg)) = Some l \<and>
             int (length (requests l)) \<le> js_or (max_requests cfg) 10"
proof -
  from assms have t: "fst (can_proceed_rate_limit cfg now s)"
    and s1: "rate_limiters s1 = rate_limiters (snd (can_proceed_rate_limit cfg now s))"
    by simp_all
  show ?thesis
    using t unfolding register_eq s1 can_proceed_eq
    by (simp add: Let_def AList.update_conv')
qed

lemma rate_limit_loop_bounded:
  assumes "rate_limit_loop cfg sig steps s = Some (Inr u, s')"
  shows "\<exists>l. map_of (rate_limiters s') (key_of_name (rl_name cfg)) = Some l \<and>
             int (length (requests l)) \<le> js_or (max_requests cfg) 10"
  using assms
proof (induction steps arbitrary: s)
  case Nil
  then show ?case by simp
next
  case (Cons e es)
  obtain b s1 where c: "can_proceed_rate_limit cfg (check_now e) s = (b, s1)"
    by (cases "can_proceed_rate_limit cfg (check_now e) s")
  show ?case
  proof (cases b)
    case True
    with Cons.prems c have "s' = register_rate_limit_request cfg (register_now e) s1" by simp
    with check_then_register [of cfg "check_now e" s s1 "register_now e"] c True
    show ?thesis by simp
  next
    case False
    obtain r s2 where w: "wait_for_rate_limit cfg sig e s1 = (r, s2)"
      by (cases "wait_for_rate_limit cfg sig e s1")
    with Cons.prems c False have "rate_limit_loop cfg sig es s2 = Some (Inr u, s')"
      by (cases r) simp_all
    then show ?thesis by (rule Cons.IH)
  qed
qed

lemma key_strict:
  "key_of_name (rl_name strict_cfg) = ''api''"
  "key_of_name (rl_name loose_cfg) = ''api''"
  by (simp_all add: strict_cfg_def loose_cfg_def key_of_name_def sanitize_name_def offending_def)

lemma maybe_cleanup_rate_limiters_not_full:
  "length (rate_limiters s) < max_rate_limiters \<Longrightarrow> maybe_cleanup_rate_limiters s = s"
  by (simp add: maybe_cleanup_rate_limiters_def)

lemma rate_limiters_initial [simp]: "rate_limiters initial_registry = []"
  by (simp add: initial_registry_def)

lemma first_check: "fst (can_proceed_rate_limit strict_cfg 0 initial_registry) = True"
  by (simp add: can_proceed_eq maybe_cleanup_rate_limiters_not_full max_rate_limiters_def key_strict
       new_limiter_def pruned_def Let_def)
     (simp add: strict_cfg_def js_or_def)

lemma limiters_one_request:
  "rate_limiters one_request_registry =
     [(''api'', \<lparr>requests = [0],
                configuration = Some \<lparr>max_requests = Some 1, window_ms = Some 1000\<rparr>\<rparr>)]"
  by (simp add: one_request_registry_def register_eq can_proceed_eq maybe_cleanup_rate_limiters_not_full
        max_rate_limiters_def key_strict new_limiter_def pruned_def Let_def)
     (simp add: strict_cfg_def)

text \<open>
  After a successful admission, the pruned timestamp list of the limiter holds at
  most \<open>max_requests\<close> entries, \<open>max_requests\<close> being the value of the call that was
  admitted: for the check followed by the registration
  (\<open>_can_proceed_rate_limit\<close> returning true, then \<open>_register_rate_limit_request\<close>), and
  for the admission of \<open>run\<close> as a whole, whose validation makes \<open>max_requests\<close> an
  integer of at least 1 and whose loop may wait and check again any number of times.
\<close>

lemma admitted_within_call_limit:
  "(can_proceed_rate_limit cfg now s = (True, s1) \<longrightarrow>
      (\<exists>l. map_of (rate_limiters (register_rate_limit_request cfg now' s1))
              (key_of_name (rl_name cfg)) = Some l \<and>
           int (length (requests l)) \<le> js_or (max_requests cfg) 10)) \<and>
   (admit_rate_limit cfg sig steps s = Some (Inr u, s') \<longrightarrow>
      (\<exists>l m. max_requests cfg = Some m \<and> 1 \<le> m \<and>
           map_of (rate_limiters s') (key_of_name (rl_name cfg)) = Some l \<and>
           int (length (requests l)) \<le> m))"
proof (intro conjI impI)
  assume "can_proceed_rate_limit cfg now s = (True, s1)"
  then show "\<exists>l. map_of (rate_limiters (register_rate_limit_request cfg now' s1))
                    (key_of_name (rl_name cfg)) = Some l \<and>
                 int (length (requests l)) \<le> js_or (max_requests cfg) 10"
    by (rule check_then_register)
next
  assume a: "admit_rate_limit cfg sig steps s = Some (Inr u, s')"
  then obtain m where m: "max_requests cfg = Some m" "1 \<le> m"
    by (cases "max_requests cfg") (auto simp: admit_rate_limit_def split: if_splits)
  from a have "rate_limit_loop cfg sig steps s = Some (Inr u, s')"
    by (auto simp: admit_rate_limit_def split: if_splits)
  from rate_limit_loop_bounded [OF this] m
  show "\<exists>l m. max_requests cfg = Some m \<and> 1 \<le> m \<and>
           map_of (rate_limiters s') (key_of_name (rl_name cfg)) = Some l \<and>
           int (length (requests l)) \<le> m"
    by (auto simp: js_or_def)
qed

section \<open>Rate limiter: which configuration the check uses\<close>

text \<open>
  C5. The limiter \<open>api\<close> is created by a call with \<open>max_requests: 1, window_ms: 1000\<close>,
  which is admitted at time 0; the limiter stores that configuration. At time 1 a call
  with the same configuration is refused, but a call under the same name with
  \<open>max_requests: 2\<close> is admitted: the check uses the configuration of the call, not
  the stored one, which is still \<open>max_requests: 1\<close> afterwards.
\<close>

theorem admission_uses_call_configuration:
  "map_option configuration (map_of (rate_limiters one_request_registry) ''api'')
     = Some (Some \<lparr>max_requests = Some 1, window_ms = Some 1000\<rparr>) \<and>
   fst (can_proceed_rate_limit strict_cfg 1 one_request_registry) = False \<and>
   fst (can_proceed_rate_limit loose_cfg 1 one_request_registry) = True \<and>
   map_option configuration
     (map_of (rate_limiters (snd (can_proceed_rate_limit loose_cfg 1 one_request_registry))) ''api'')
     = Some (Some \<lparr>max_requests = Some 1, window_ms = Some 1000\<rparr>)"
  by (simp add: can_proceed_eq limiters_one_request maybe_cleanup_rate_limiters_not_full
        max_rate_limiters_def key_strict pruned_def Let_def)
     (simp add: strict_cfg_def loose_cfg_def js_or_def)

section \<open>Backoff delay\<close>

lemma pow2_pos: "0 < pow2 e"
  by (simp add: pow2_def)

lemma fallback_delay_Fin:
  "0 \<le> mb \<Longrightarrow> \<exists>x. fallback_delay mb a = Fin x \<and> 0 \<le> x"
  using pow2_pos [of "min (a - 1) 10"] by (simp add: fallback_delay_def min_def)

lemma base_delay_Fin:
  assumes "0 \<le> mb"
  shows "\<exists>x. base_delay bo mb a = Fin x \<and> 0 \<le> x"
proof -
  have d: "\<exists>x. default_backoff a = Fin x \<and> 0 \<le> x"
    using pow2_pos [of "a - 1"] by (simp add: default_backoff_def min_def)
  have n: "\<exists>x. (let b = js_or_zero n in
                 if \<not> js_isFinite b \<or> js_less b (Fin 0) then fallback_delay mb a else b) = Fin x \<and> 0 \<le> x"
    for n
    using fallback_delay_Fin [OF assms, of a] by (cases n) (auto simp: Let_def)
  show ?thesis
  proof (cases bo)
    case Backoff_Default
    with d obtain x where "default_backoff a = Fin x" "0 \<le> x" by blast
    with Backoff_Default show ?thesis by (simp add: base_delay_def)
  next
    case Backoff_Not_Function
    with fallback_delay_Fin [OF assms, of a] show ?thesis by (simp add: base_delay_def)
  next
    case (Backoff_Function f)
    show ?thesis
    proof (cases "f a")
      case None
      with Backoff_Function fallback_delay_Fin [OF assms, of a] show ?thesis
        by (simp add: base_delay_def)
    next
      case (Some n')
      with Backoff_Function n [of n'] show ?thesis by (simp add: base_delay_def)
    qed
  qed
qed

text \<open>
  C9. For every attempt number, every \<open>backoff\<close> option (the default, or a function
  that returns a number, returns something that is not a number, or throws), every value
  of the \<open>max_backoff\<close> option and every jitter factor \<open>0.8 + 0.4 * rnd\<close> between 0.8
  and 1.2, the delay the loop waits before the next attempt is a finite number, at least
  0 and at most the parsed \<open>max_backoff\<close>, which is at most 60000.
\<close>

theorem backoff_delay_bounds:
  assumes "0 \<le> rnd" and "rnd \<le> 1"
  shows "\<exists>d. backoff_delay bo (parse_safe_number v 5000 0 60000) a rnd = Fin d \<and>
             0 \<le> d \<and> d \<le> real_of_int (parse_safe_number v 5000 0 60000) \<and>
             parse_safe_number v 5000 0 60000 \<le> 60000"
proof -
  let ?mb = "parse_safe_number v 5000 0 60000"
  have mb: "0 \<le> ?mb" "?mb \<le> 60000"
    by (auto simp: parse_safe_number_def floor_le_iff split: jsnum.splits)
  from base_delay_Fin [OF mb(1), of bo a] obtain x where x: "base_delay bo ?mb a = Fin x" "0 \<le> x"
    by blast
  from assms have "0 \<le> 0.8 + rnd * 0.4" by simp
  with x(2) have "0 \<le> x * (0.8 + rnd * 0.4)" by (rule mult_nonneg_nonneg)
  with x(1) mb show ?thesis
    by (simp add: backoff_delay_def jitter_def min_def)
qed

theorem backoff_delay_bounds_witness:
  "(0::real) \<le> 1 / 2 \<and> (1 / 2 :: real) \<le> 1 \<and>
   backoff_delay thrower (parse_safe_number (JNum (Fin 250)) 5000 0 60000) 3 (1 / 2) = Fin 250"
  using backoff_delay_bounds [of "1 / 2" thrower "JNum (Fin 250)" 3]
  by (simp add: backoff_delay_def jitter_def base_delay_def thrower_def fallback_delay_def pow2_def
        parse_safe_number_def)

section \<open>Counters and the in-flight counter under the registry operations\<close>

text \<open>
  The counters map under \<open>_inc\<close>: a call adds one to the total of its metric and leaves
  the other totals alone, as long as the map holds fewer than \<open>MAX_METRIC_KEYS\<close> keys
  (at the ceiling the oldest key is evicted, with what it counted).
\<close>

lemma counter_total_eq: "counter_total nm s = total_of nm (counters s)"
  by (simp add: counter_total_def total_of_def)

lemma counters_inc [simp]: "counters (inc nm l s) = bump nm l (counters s)"
  by (simp add: inc_def inc_by_def bump_def Let_def)

lemma metric_name_key:
  assumes "CHR ''{'' \<notin> set nm"
  shows "metric_name (get_metric_key nm l) = nm"
proof -
  have a: "takeWhile (\<lambda>c. c \<noteq> CHR ''{'') nm = nm"
    using assms by (auto simp add: takeWhile_eq_all_conv)
  have b: "takeWhile (\<lambda>c. c \<noteq> CHR ''{'') (nm @ CHR ''{'' # rest) = nm" for rest
    using assms by (induction nm) auto
  show ?thesis
    by (simp add: metric_name_def get_metric_key_def Let_def a b)
qed

lemma total_of_update:
  "total_of nm (AList.update k v al) =
     total_of nm al + (if metric_name k = nm
                       then v - (case map_of al k of None \<Rightarrow> 0 | Some c \<Rightarrow> c) else 0)"
  by (induction al) (auto simp: total_of_def)

lemma length_update_le: "length (AList.update k v al) \<le> length al + 1"
  by (induction al) auto

lemma length_delete_first_key: "length (delete_first_key al) \<le> length al"
  by (cases al) (auto simp: delete_first_key_def AList.length_delete_le le_SucI)

lemma length_bump: "length (bump nm l cs) \<le> length cs + 1"
proof -
  have "length (if length cs \<ge> max_metric_keys then delete_first_key cs else cs) \<le> length cs"
    by (simp add: length_delete_first_key)
  then show ?thesis
    unfolding bump_def Let_def
    by (meson add_le_mono1 length_update_le order_trans)
qed

lemma total_of_bump:
  assumes "length cs < max_metric_keys" and "CHR ''{'' \<notin> set nm'"
  shows "total_of nm (bump nm' l cs) = total_of nm cs + (if nm' = nm then 1 else 0)"
  using assms by (simp add: bump_def Let_def total_of_update metric_name_key split: option.splits)

lemma adds_others_same: "adds_others k cs cs"
  by (simp add: adds_others_def)

lemma adds_others_mono: "adds_others j cs cs' \<Longrightarrow> j \<le> k \<Longrightarrow> adds_others k cs cs'"
  by (auto simp: adds_others_def)

lemma adds_others_trans:
  assumes "adds_others j cs cs1" and "adds_others k cs1 cs2"
  shows "adds_others (j + k) cs cs2"
  using assms by (auto simp: adds_others_def)

lemma adds_others_bump:
  assumes "\<not> loop_metric nm'" and "CHR ''{'' \<notin> set nm'"
  shows "adds_others (Suc 0) cs (bump nm' l cs)"
proof -
  have "total_of nm (bump nm' l cs) = total_of nm cs"
    if "length cs + 1 \<le> max_metric_keys" "loop_metric nm" for nm
    using that assms total_of_bump [of cs nm' nm l] by auto
  then show ?thesis using length_bump [of nm' l cs] by (simp add: adds_others_def)
qed

lemma adds_others_then_bump:
  assumes "adds_others j cs cs1" and "\<not> loop_metric nm'" and "CHR ''{'' \<notin> set nm'"
  shows "adds_others (Suc j) cs (bump nm' l cs1)"
  using adds_others_trans [OF assms(1) adds_others_bump [OF assms(2,3)]] by simp

lemma other_metrics:
  "\<not> loop_metric ''asyncguardjs.circuit.evicted''" "CHR ''{'' \<notin> set ''asyncguardjs.circuit.evicted''"
  "\<not> loop_metric ''asyncguardjs.circuit.open''" "CHR ''{'' \<notin> set ''asyncguardjs.circuit.open''"
  "\<not> loop_metric ''asyncguardjs.circuit.recovered''" "CHR ''{'' \<notin> set ''asyncguardjs.circuit.recovered''"
  "\<not> loop_metric ''asyncguardjs.ratelimit.evicted''" "CHR ''{'' \<notin> set ''asyncguardjs.ratelimit.evicted''"
  "\<not> loop_metric ''asyncguardjs.ratelimit.hit''" "CHR ''{'' \<notin> set ''asyncguardjs.ratelimit.hit''"
  "\<not> loop_metric ''asyncguardjs.ratelimit.queued''" "CHR ''{'' \<notin> set ''asyncguardjs.ratelimit.queued''"
  "\<not> loop_metric ''asyncguardjs.failure''" "CHR ''{'' \<notin> set ''asyncguardjs.failure''"
  "\<not> loop_metric ''asyncguardjs.fallback.used''" "CHR ''{'' \<notin> set ''asyncguardjs.fallback.used''"
  "\<not> loop_metric ''asyncguardjs.fallback.failed''" "CHR ''{'' \<notin> set ''asyncguardjs.fallback.failed''"
  "CHR ''{'' \<notin> set ''asyncguardjs.attempt''" "CHR ''{'' \<notin> set ''asyncguardjs.retry''"
  by (simp_all add: loop_metric_def)

text \<open>
  What the circuit breaker, the rate limiter and the terminal branch of the loop keep:
  the in-flight counter, and the totals of the two metrics of the attempt loop.
\<close>

lemma cleanup_circuits_keeps:
  "active_operations (maybe_cleanup_circuits s) = active_operations s"
  "adds_others (Suc 0) (counters s) (counters (maybe_cleanup_circuits s))"
  by (simp_all add: maybe_cleanup_circuits_def Let_def adds_others_same
        adds_others_bump other_metrics split: list.splits)

lemma cleanup_rate_limiters_keeps:
  "active_operations (maybe_cleanup_rate_limiters s) = active_operations s"
  "circuits (maybe_cleanup_rate_limiters s) = circuits s"
  "adds_others (Suc 0) (counters s) (counters (maybe_cleanup_rate_limiters s))"
  by (simp_all add: maybe_cleanup_rate_limiters_def Let_def adds_others_same
        adds_others_bump other_metrics split: list.splits)

lemma record_failure_keeps:
  "active_operations (record_failure cfg now s) = active_operations s"
  "adds_others 2 (counters s) (counters (record_failure cfg now s))"
proof -
  show "active_operations (record_failure cfg now s) = active_operations s"
    by (simp add: record_failure_def Let_def split_beta cleanup_circuits_keeps split: option.splits)
  let ?s2 = "maybe_cleanup_circuits (snd (get_circuit_key cfg s))"
  have c: "adds_others (Suc 0) (counters s) (counters ?s2)"
    using cleanup_circuits_keeps(2) [of "snd (get_circuit_key cfg s)"] by simp
  have "counters (record_failure cfg now s) = counters ?s2 \<or>
        counters (record_failure cfg now s)
          = bump ''asyncguardjs.circuit.open'' [(''name'', LStr (name_or_default (name cfg)))] (counters ?s2)"
    by (simp add: record_failure_def Let_def split_beta split: option.splits)
  then show "adds_others 2 (counters s) (counters (record_failure cfg now s))"
  proof
    assume "counters (record_failure cfg now s) = counters ?s2"
    with adds_others_mono [OF c, of 2] show ?thesis by simp
  next
    assume "counters (record_failure cfg now s)
          = bump ''asyncguardjs.circuit.open'' [(''name'', LStr (name_or_default (name cfg)))] (counters ?s2)"
    with adds_others_then_bump [OF c other_metrics(3,4)] show ?thesis by (simp add: numeral_2_eq_2)
  qed
qed

lemma record_success_keeps:
  "active_operations (record_success cfg s) = active_operations s"
  "adds_others (Suc 0) (counters s) (counters (record_success cfg s))"
  by (simp_all add: record_success_def Let_def split_beta adds_others_same adds_others_bump
        other_metrics split: option.splits)

lemma is_circuit_open_keeps:
  "active_operations (snd (is_circuit_open cfg now s)) = active_operations s"
  "counters (snd (is_circuit_open cfg now s)) = counters s"
  by (simp_all add: is_circuit_open_def Let_def split_beta split: option.splits)

lemma check_circuit_breaker_keeps:
  "active_operations (snd (check_circuit_breaker cb now s)) = active_operations s"
  "counters (snd (check_circuit_breaker cb now s)) = counters s"
  "circuit_keys_sanitized s \<Longrightarrow> circuit_keys_sanitized (snd (check_circuit_breaker cb now s))"
proof -
  obtain b s1 where c: "is_circuit_open cb now s = (b, s1)" by (cases "is_circuit_open cb now s")
  then have s1: "s1 = snd (is_circuit_open cb now s)" by simp
  have k: "active_operations s1 = active_operations s" "counters s1 = counters s"
    "circuit_keys_sanitized s \<Longrightarrow> circuit_keys_sanitized s1"
    by (simp_all add: s1 is_circuit_open_keeps keys_sanitized_others)
  from c k show "active_operations (snd (check_circuit_breaker cb now s)) = active_operations s"
    by (cases b) (simp_all add: check_circuit_breaker_def)
  from c k show "counters (snd (check_circuit_breaker cb now s)) = counters s"
    by (cases b) (simp_all add: check_circuit_breaker_def)
  from c k show "circuit_keys_sanitized s \<Longrightarrow> circuit_keys_sanitized (snd (check_circuit_breaker cb now s))"
    by (cases b) (simp_all add: check_circuit_breaker_def)
qed

lemma can_proceed_keeps:
  "active_operations (snd (can_proceed_rate_limit cfg now s)) = active_operations s"
  "circuits (snd (can_proceed_rate_limit cfg now s)) = circuits s"
  "adds_others 2 (counters s) (counters (snd (can_proceed_rate_limit cfg now s)))"
proof -
  show "active_operations (snd (can_proceed_rate_limit cfg now s)) = active_operations s"
    "circuits (snd (can_proceed_rate_limit cfg now s)) = circuits s"
    by (simp_all add: can_proceed_rate_limit_def Let_def split_beta cleanup_rate_limiters_keeps
        split: option.splits)
  let ?s2 = "maybe_cleanup_rate_limiters (snd (get_rate_limit_key cfg s))"
  let ?r = "snd (can_proceed_rate_limit cfg now s)"
  have c: "adds_others (Suc 0) (counters s) (counters ?s2)"
    using cleanup_rate_limiters_keeps(3) [of "snd (get_rate_limit_key cfg s)"] by simp
  have "counters ?r = counters ?s2 \<or>
        counters ?r = bump ''asyncguardjs.ratelimit.hit''
                        [(''name'', LStr (name_or_default (rl_name cfg)))] (counters ?s2)"
    by (simp add: can_proceed_rate_limit_def Let_def split_beta split: option.splits)
  then show "adds_others 2 (counters s) (counters ?r)"
  proof
    assume "counters ?r = counters ?s2"
    with adds_others_mono [OF c, of 2] show ?thesis by simp
  next
    assume "counters ?r = bump ''asyncguardjs.ratelimit.hit''
                        [(''name'', LStr (name_or_default (rl_name cfg)))] (counters ?s2)"
    with adds_others_then_bump [OF c other_metrics(9,10)] show ?thesis by (simp add: numeral_2_eq_2)
  qed
qed

lemma register_keeps:
  "active_operations (register_rate_limit_request cfg now s) = active_operations s"
  "circuits (register_rate_limit_request cfg now s) = circuits s"
  "counters (register_rate_limit_request cfg now s) = counters s"
  by (simp_all add: register_rate_limit_request_def Let_def split_beta)

lemma wait_keeps:
  "active_operations (snd (wait_for_rate_limit cfg sig e s)) = active_operations s"
  "circuits (snd (wait_for_rate_limit cfg sig e s)) = circuits s"
  "adds_others (Suc 0) (counters s) (counters (snd (wait_for_rate_limit cfg sig e s)))"
  by (simp_all add: wait_for_rate_limit_def Let_def split_beta adds_others_same adds_others_bump
        other_metrics split: option.splits list.splits)

lemma rate_limit_loop_keeps:
  assumes "rate_limit_loop cfg sig steps s = Some (r, s')"
  shows "active_operations s' = active_operations s"
    and "circuits s' = circuits s"
    and "adds_others (3 * length steps) (counters s) (counters s')"
proof -
  have "active_operations s' = active_operations s \<and> circuits s' = circuits s \<and>
        adds_others (3 * length steps) (counters s) (counters s')"
    using assms
  proof (induction steps arbitrary: s)
    case Nil
    then show ?case by simp
  next
    case (Cons e es)
    obtain b s1 where c: "can_proceed_rate_limit cfg (check_now e) s = (b, s1)"
      by (cases "can_proceed_rate_limit cfg (check_now e) s")
    then have "s1 = snd (can_proceed_rate_limit cfg (check_now e) s)" by simp
    then have k1: "active_operations s1 = active_operations s" "circuits s1 = circuits s"
      "adds_others 2 (counters s) (counters s1)"
      by (simp_all add: can_proceed_keeps)
    show ?case
    proof (cases b)
      case True
      with Cons.prems c have "s' = register_rate_limit_request cfg (register_now e) s1" by simp
      with k1 adds_others_mono [OF k1(3), of "3 * length (e # es)"] show ?thesis
        by (simp add: register_keeps)
    next
      case False
      obtain w s2 where w: "wait_for_rate_limit cfg sig e s1 = (w, s2)"
        by (cases "wait_for_rate_limit cfg sig e s1")
      then have "s2 = snd (wait_for_rate_limit cfg sig e s1)" by simp
      then have k2: "active_operations s2 = active_operations s1" "circuits s2 = circuits s1"
        "adds_others (Suc 0) (counters s1) (counters s2)"
        by (simp_all add: wait_keeps)
      have k3: "adds_others 3 (counters s) (counters s2)"
        using adds_others_trans [OF k1(3) k2(3)] by simp
      show ?thesis
      proof (cases w)
        case (Inl err)
        with Cons.prems c False w have "s' = s2" by simp
        with k1 k2 adds_others_mono [OF k3, of "3 * length (e # es)"] show ?thesis by simp
      next
        case (Inr u)
        with Cons.prems c False w have "rate_limit_loop cfg sig es s2 = Some (r, s')" by simp
        from Cons.IH [OF this] k1 k2 adds_others_trans [OF k3, of "3 * length es" "counters s'"]
        show ?thesis by (simp add: add.commute)
      qed
    qed
  qed
  then show "active_operations s' = active_operations s" and "circuits s' = circuits s"
    and "adds_others (3 * length steps) (counters s) (counters s')" by simp_all
qed

lemma admission_keeps:
  assumes "admission opts env s = Some (r, s')"
  shows "active_operations s' = active_operations s"
    and "adds_others (3 * length (rl_steps env)) (counters s) (counters s')"
    and "circuit_keys_sanitized s \<Longrightarrow> circuit_keys_sanitized s'"
proof -
  define c where "c = (case circuit_breaker opts of
                 None \<Rightarrow> (Inr (), s)
               | Some cb \<Rightarrow> check_circuit_breaker cb (circuit_now env) s)"
  obtain cr s1 where c: "c = (cr, s1)" by (cases c)
  then have "s1 = snd c" by simp
  then have k1: "active_operations s1 = active_operations s" "counters s1 = counters s"
    "circuit_keys_sanitized s \<Longrightarrow> circuit_keys_sanitized s1"
    by (simp_all add: c_def check_circuit_breaker_keeps split: option.splits)
  have "active_operations s' = active_operations s \<and>
        adds_others (3 * length (rl_steps env)) (counters s) (counters s') \<and>
        (circuit_keys_sanitized s \<longrightarrow> circuit_keys_sanitized s')"
  proof (cases "backoff opts = Backoff_Not_Function")
    case True
    with assms show ?thesis by (simp add: admission_def adds_others_same)
  next
    case False
    with assms c have a: "(case cr of Inl err \<Rightarrow> Some (Inl err, s1)
         | Inr _ \<Rightarrow> (case rate_limit opts of None \<Rightarrow> Some (Inr (), s1)
              | Some rl \<Rightarrow> admit_rate_limit rl (signal_given opts) (rl_steps env) s1)) = Some (r, s')"
      by (cases "backoff opts") (simp_all add: admission_def c_def [symmetric])
    show ?thesis
    proof (cases cr)
      case (Inl err)
      with a k1 show ?thesis by (auto simp: adds_others_same)
    next
      case (Inr u)
      show ?thesis
      proof (cases "rate_limit opts")
        case None
        with a Inr k1 show ?thesis by (auto simp: adds_others_same)
      next
        case (Some rl)
        with a Inr have "admit_rate_limit rl (signal_given opts) (rl_steps env) s1 = Some (r, s')"
          by simp
        then have "s' = s1 \<or> rate_limit_loop rl (signal_given opts) (rl_steps env) s1 = Some (r, s')"
          by (auto simp: admit_rate_limit_def split: if_splits)
        then show ?thesis
        proof
          assume "s' = s1"
          with k1 show ?thesis by (auto simp: adds_others_same)
        next
          assume "rate_limit_loop rl (signal_given opts) (rl_steps env) s1 = Some (r, s')"
          from rate_limit_loop_keeps [OF this] k1 show ?thesis
            by (simp add: circuit_keys_sanitized_def)
        qed
      qed
    qed
  qed
  then show "active_operations s' = active_operations s"
    and "adds_others (3 * length (rl_steps env)) (counters s) (counters s')"
    and "circuit_keys_sanitized s \<Longrightarrow> circuit_keys_sanitized s'" by simp_all
qed

lemma terminal_failure_keeps:
  "fst (terminal_failure opts e err a ab s) = terminal_result opts e err a ab"
  "active_operations (snd (terminal_failure opts e err a ab s)) = active_operations s"
  "circuits (snd (terminal_failure opts e err a ab s)) =
     (case circuit_breaker opts of None \<Rightarrow> circuits s
      | Some cb \<Rightarrow> circuits (record_failure cb (record_now e) s))"
  "adds_others 3 (counters s) (counters (snd (terminal_failure opts e err a ab s)))"
proof -
  show "fst (terminal_failure opts e err a ab s) = terminal_result opts e err a ab"
    "active_operations (snd (terminal_failure opts e err a ab s)) = active_operations s"
    "circuits (snd (terminal_failure opts e err a ab s)) =
     (case circuit_breaker opts of None \<Rightarrow> circuits s
      | Some cb \<Rightarrow> circuits (record_failure cb (record_now e) s))"
    by (simp_all add: terminal_failure_def terminal_result_def Let_def record_failure_keeps
        split: fallback_option.splits fallback_outcome.splits option.splits)
  define s1 where "s1 = (case circuit_breaker opts of
                  None \<Rightarrow> s | Some cb \<Rightarrow> record_failure cb (record_now e) s)"
  have a: "adds_others 2 (counters s) (counters s1)"
    by (simp add: s1_def record_failure_keeps adds_others_same split: option.splits)
  let ?r = "snd (terminal_failure opts e err a ab s)"
  have "counters ?r = counters s1 \<or>
        counters ?r = bump ''asyncguardjs.fallback.used''
                   [(''reason'', LStr (if ab then ''aborted'' else ''exhausted''))] (counters s1) \<or>
        counters ?r = bump ''asyncguardjs.fallback.failed'' [] (counters s1)"
    by (simp add: terminal_failure_def Let_def s1_def
        split: fallback_option.splits fallback_outcome.splits)
  then show "adds_others 3 (counters s) (counters ?r)"
    using adds_others_mono [OF a, of 3]
      adds_others_then_bump [OF a other_metrics(15,16)]
      adds_others_then_bump [OF a other_metrics(17,18)]
    by (auto simp: numeral_3_eq_3 numeral_2_eq_2)
qed

lemma attempt_step_active:
  "attempt_step opts env M tmo mb a s = Done (r, s') \<Longrightarrow> active_operations s' = active_operations s"
  "attempt_step opts env M tmo mb a s = Continue s' \<Longrightarrow> active_operations s' = active_operations s"
  by (auto simp: attempt_step_def Let_def record_success_keeps terminal_failure_keeps
      split: if_splits task_outcome.splits option.splits
      dest!: arg_cong [where f = "\<lambda>p. active_operations (snd p)"])

lemma attempt_loop_active:
  "attempt_loop opts env M tmo mb a s = (r, s') \<Longrightarrow> active_operations s' = active_operations s"
proof (induction opts env M tmo mb a s rule: attempt_loop.induct)
  case (1 opts env M tmo mb a s)
  show ?case
  proof (cases "a \<le> M")
    case False
    with "1.prems" show ?thesis by (simp add: attempt_loop.simps)
  next
    case True
    show ?thesis
    proof (cases "attempt_step opts env M tmo mb a s")
      case (Done p)
      with True "1.prems" have "attempt_step opts env M tmo mb a s = Done (r, s')"
        by (simp add: attempt_loop.simps)
      then show ?thesis by (rule attempt_step_active)
    next
      case (Continue s1)
      with True "1.prems" have "attempt_loop opts env M tmo mb (a + 1) s1 = (r, s')"
        by (simp add: attempt_loop.simps)
      with "1.IH" [OF True Continue] attempt_step_active(2) [OF Continue] show ?thesis by simp
    qed
  qed
qed

section \<open>The attempt loop of a task that always fails\<close>

lemma failing_step_general:
  assumes "always_fails env" and "never_aborted env"
  shows "\<exists>err. outcome (attempts env a) = Rejects err \<and>
          (attempt_step opts env M tmo mb a s =
             Done (terminal_failure opts (attempts env a) err a False
               (inc ''asyncguardjs.failure'' [(''attempt'', LNum a), (''aborted'', LBool False)]
                 (inc ''asyncguardjs.attempt'' [(''attempt'', LNum a)] s))) \<or>
           a < M \<and> attempt_step opts env M tmo mb a s =
             Continue (inc ''asyncguardjs.retry'' [(''attempt'', LNum a)]
               (inc ''asyncguardjs.failure'' [(''attempt'', LNum a), (''aborted'', LBool False)]
                 (inc ''asyncguardjs.attempt'' [(''attempt'', LNum a)] s))))"
proof -
  from assms(1) obtain err where o: "outcome (attempts env a) = Rejects err"
    by (auto simp: always_fails_def)
  from assms(2) have n: "\<not> signal_aborted (attempts env a)" "\<not> combined_aborted (attempts env a)"
    "\<not> backoff_aborted (attempts env a)"
    by (auto simp: never_aborted_def)
  from o n show ?thesis by (auto simp add: attempt_step_def Let_def)
qed

lemma failing_step:
  assumes "always_fails env" and "never_aborted env" and "retry_if opts = None"
  shows "a < M \<Longrightarrow> attempt_step opts env M tmo mb a s =
           Continue (inc ''asyncguardjs.retry'' [(''attempt'', LNum a)]
             (inc ''asyncguardjs.failure'' [(''attempt'', LNum a), (''aborted'', LBool False)]
               (inc ''asyncguardjs.attempt'' [(''attempt'', LNum a)] s)))"
    and "M \<le> a \<Longrightarrow> \<exists>err. outcome (attempts env a) = Rejects err \<and>
           attempt_step opts env M tmo mb a s =
           Done (terminal_failure opts (attempts env a) err a False
             (inc ''asyncguardjs.failure'' [(''attempt'', LNum a), (''aborted'', LBool False)]
               (inc ''asyncguardjs.attempt'' [(''attempt'', LNum a)] s)))"
proof -
  from assms(1) obtain err where o: "outcome (attempts env a) = Rejects err"
    by (auto simp: always_fails_def)
  from assms(2) have n: "\<not> signal_aborted (attempts env a)" "\<not> combined_aborted (attempts env a)"
    "\<not> backoff_aborted (attempts env a)"
    by (auto simp: never_aborted_def)
  show "a < M \<Longrightarrow> attempt_step opts env M tmo mb a s =
           Continue (inc ''asyncguardjs.retry'' [(''attempt'', LNum a)]
             (inc ''asyncguardjs.failure'' [(''attempt'', LNum a), (''aborted'', LBool False)]
               (inc ''asyncguardjs.attempt'' [(''attempt'', LNum a)] s)))"
    using o n assms(3) by (simp add: attempt_step_def Let_def)
  show "M \<le> a \<Longrightarrow> \<exists>err. outcome (attempts env a) = Rejects err \<and>
           attempt_step opts env M tmo mb a s =
           Done (terminal_failure opts (attempts env a) err a False
             (inc ''asyncguardjs.failure'' [(''attempt'', LNum a), (''aborted'', LBool False)]
               (inc ''asyncguardjs.attempt'' [(''attempt'', LNum a)] s)))"
    using o n assms(3) by (auto simp add: attempt_step_def Let_def)
qed

lemma attempt_and_failure:
  assumes "length cs + 2 \<le> max_metric_keys"
  shows "total_of ''asyncguardjs.attempt''
           (bump ''asyncguardjs.failure'' l2 (bump ''asyncguardjs.attempt'' l1 cs))
           = total_of ''asyncguardjs.attempt'' cs + 1"
    and "total_of ''asyncguardjs.retry''
           (bump ''asyncguardjs.failure'' l2 (bump ''asyncguardjs.attempt'' l1 cs))
           = total_of ''asyncguardjs.retry'' cs"
    and "length (bump ''asyncguardjs.failure'' l2 (bump ''asyncguardjs.attempt'' l1 cs))
           \<le> Suc (Suc (length cs))"
proof -
  let ?c1 = "bump ''asyncguardjs.attempt'' l1 cs"
  have l1: "length ?c1 \<le> length cs + 1" by (rule length_bump)
  have l2: "length (bump ''asyncguardjs.failure'' l2 ?c1) \<le> length ?c1 + 1" by (rule length_bump)
  from assms have a: "length cs < max_metric_keys" by simp
  from assms l1 have b: "length ?c1 < max_metric_keys" by simp
  show "total_of ''asyncguardjs.attempt'' (bump ''asyncguardjs.failure'' l2 ?c1)
           = total_of ''asyncguardjs.attempt'' cs + 1"
    by (simp add: total_of_bump [OF b] total_of_bump [OF a] other_metrics)
  show "total_of ''asyncguardjs.retry'' (bump ''asyncguardjs.failure'' l2 ?c1)
           = total_of ''asyncguardjs.retry'' cs"
    by (simp add: total_of_bump [OF b] total_of_bump [OF a] other_metrics)
  from l1 l2 show "length (bump ''asyncguardjs.failure'' l2 ?c1) \<le> Suc (Suc (length cs))" by simp
qed

lemma attempt_failure_retry:
  assumes "length cs + 3 \<le> max_metric_keys"
  shows "total_of ''asyncguardjs.attempt''
           (bump ''asyncguardjs.retry'' l3
              (bump ''asyncguardjs.failure'' l2 (bump ''asyncguardjs.attempt'' l1 cs)))
           = total_of ''asyncguardjs.attempt'' cs + 1"
    and "total_of ''asyncguardjs.retry''
           (bump ''asyncguardjs.retry'' l3
              (bump ''asyncguardjs.failure'' l2 (bump ''asyncguardjs.attempt'' l1 cs)))
           = total_of ''asyncguardjs.retry'' cs + 1"
    and "length (bump ''asyncguardjs.retry'' l3
              (bump ''asyncguardjs.failure'' l2 (bump ''asyncguardjs.attempt'' l1 cs)))
           \<le> Suc (Suc (Suc (length cs)))"
proof -
  let ?c2 = "bump ''asyncguardjs.failure'' l2 (bump ''asyncguardjs.attempt'' l1 cs)"
  from assms have r: "length cs + 2 \<le> max_metric_keys" by simp
  note af = attempt_and_failure [OF r, of l2 l1]
  have l3: "length (bump ''asyncguardjs.retry'' l3 ?c2) \<le> length ?c2 + 1" by (rule length_bump)
  from assms af(3) have c: "length ?c2 < max_metric_keys" by simp
  show "total_of ''asyncguardjs.attempt'' (bump ''asyncguardjs.retry'' l3 ?c2)
           = total_of ''asyncguardjs.attempt'' cs + 1"
    by (simp add: total_of_bump [OF c] af other_metrics)
  show "total_of ''asyncguardjs.retry'' (bump ''asyncguardjs.retry'' l3 ?c2)
           = total_of ''asyncguardjs.retry'' cs + 1"
    by (simp add: total_of_bump [OF c] af other_metrics)
  from l3 af(3) show "length (bump ''asyncguardjs.retry'' l3 ?c2) \<le> Suc (Suc (Suc (length cs)))"
    by simp
qed

lemma failing_loop:
  assumes "always_fails env" and "never_aborted env" and "retry_if opts = None"
    and "a \<le> M" and "k = nat (M - a)"
    and "length (counters s) + 3 * k + 5 \<le> max_metric_keys"
  shows "\<exists>err. outcome (attempts env M) = Rejects err \<and>
           fst (attempt_loop opts env M tmo mb a s) = terminal_result opts (attempts env M) err M False \<and>
           counter_total ''asyncguardjs.attempt'' (snd (attempt_loop opts env M tmo mb a s))
             = counter_total ''asyncguardjs.attempt'' s + int k + 1 \<and>
           counter_total ''asyncguardjs.retry'' (snd (attempt_loop opts env M tmo mb a s))
             = counter_total ''asyncguardjs.retry'' s + int k"
  using assms(4,5,6)
proof (induction k arbitrary: a s)
  case 0
  then have a: "a = M" by simp
  let ?s2 = "inc ''asyncguardjs.failure'' [(''attempt'', LNum M), (''aborted'', LBool False)]
               (inc ''asyncguardjs.attempt'' [(''attempt'', LNum M)] s)"
  from failing_step(2) [OF assms(1-3), of M M tmo mb s] obtain err where
    o: "outcome (attempts env M) = Rejects err" and
    st: "attempt_step opts env M tmo mb M s =
           Done (terminal_failure opts (attempts env M) err M False ?s2)" by auto
  have l: "attempt_loop opts env M tmo mb M s = terminal_failure opts (attempts env M) err M False ?s2"
    by (subst attempt_loop.simps) (simp add: st)
  from "0.prems" have r: "length (counters s) + 2 \<le> max_metric_keys" by simp
  note af = attempt_and_failure [OF r]
  have t: "adds_others 3 (counters ?s2)
             (counters (snd (terminal_failure opts (attempts env M) err M False ?s2)))"
    by (rule terminal_failure_keeps)
  have "length (counters ?s2) \<le> Suc (Suc (length (counters s)))" by (simp add: af(3))
  with "0.prems" have room: "length (counters ?s2) + 3 \<le> max_metric_keys" by simp
  from t room have keep: "loop_metric nm \<Longrightarrow>
      total_of nm (counters (snd (terminal_failure opts (attempts env M) err M False ?s2)))
        = total_of nm (counters ?s2)" for nm
    by (simp add: adds_others_def)
  show ?case
    unfolding a l using o
    by (simp add: terminal_failure_keeps(1) counter_total_eq keep af loop_metric_def)
next
  case (Suc k)
  then have lt: "a < M" and k: "k = nat (M - (a + 1))" and le: "a + 1 \<le> M" by simp_all
  let ?s1 = "inc ''asyncguardjs.retry'' [(''attempt'', LNum a)]
             (inc ''asyncguardjs.failure'' [(''attempt'', LNum a), (''aborted'', LBool False)]
               (inc ''asyncguardjs.attempt'' [(''attempt'', LNum a)] s))"
  have st: "attempt_step opts env M tmo mb a s = Continue ?s1"
    using failing_step(1) [OF assms(1-3) lt] .
  have l: "attempt_loop opts env M tmo mb a s = attempt_loop opts env M tmo mb (a + 1) ?s1"
    using lt by (subst attempt_loop.simps) (simp add: st)
  from Suc.prems have r: "length (counters s) + 3 \<le> max_metric_keys" by simp
  note afr = attempt_failure_retry [OF r]
  have "length (counters ?s1) \<le> Suc (Suc (Suc (length (counters s))))" by (simp add: afr(3))
  with Suc.prems have room: "length (counters ?s1) + 3 * k + 5 \<le> max_metric_keys" by simp
  from Suc.IH [OF le k room] show ?case
    unfolding l by (auto simp add: counter_total_eq afr)
qed

lemma failing_loop_terminal:
  assumes "always_fails env" and "never_aborted env" and "a \<le> M" and "k = nat (M - a)"
  shows "\<exists>a' err s0. attempt_loop opts env M tmo mb a s
                        = terminal_failure opts (attempts env a') err a' False s0 \<and>
                      circuits s0 = circuits s"
  using assms(3,4)
proof (induction k arbitrary: a s)
  case 0
  then have a: "a = M" by simp
  from failing_step_general [OF assms(1,2), of M opts M tmo mb s]
  obtain err where
    st: "attempt_step opts env M tmo mb M s =
           Done (terminal_failure opts (attempts env M) err M False
               (inc ''asyncguardjs.failure'' [(''attempt'', LNum M), (''aborted'', LBool False)]
                 (inc ''asyncguardjs.attempt'' [(''attempt'', LNum M)] s)))" by auto
  have "attempt_loop opts env M tmo mb M s = terminal_failure opts (attempts env M) err M False
               (inc ''asyncguardjs.failure'' [(''attempt'', LNum M), (''aborted'', LBool False)]
                 (inc ''asyncguardjs.attempt'' [(''attempt'', LNum M)] s))"
    by (subst attempt_loop.simps) (simp add: st)
  then show ?case unfolding a by (intro exI conjI) (assumption, simp)
next
  case (Suc k)
  then have lt: "a < M" and k: "k = nat (M - (a + 1))" and le: "a + 1 \<le> M" by simp_all
  let ?s2 = "inc ''asyncguardjs.failure'' [(''attempt'', LNum a), (''aborted'', LBool False)]
                 (inc ''asyncguardjs.attempt'' [(''attempt'', LNum a)] s)"
  let ?s3 = "inc ''asyncguardjs.retry'' [(''attempt'', LNum a)] ?s2"
  from failing_step_general [OF assms(1,2), of a opts M tmo mb s]
  obtain err where
    st: "attempt_step opts env M tmo mb a s = Done (terminal_failure opts (attempts env a) err a False ?s2)
         \<or> attempt_step opts env M tmo mb a s = Continue ?s3" by auto
  then show ?case
  proof
    assume d: "attempt_step opts env M tmo mb a s
                 = Done (terminal_failure opts (attempts env a) err a False ?s2)"
    have "attempt_loop opts env M tmo mb a s = terminal_failure opts (attempts env a) err a False ?s2"
      using lt by (subst attempt_loop.simps) (simp add: d)
    then show ?thesis by (intro exI conjI) (assumption, simp)
  next
    assume c: "attempt_step opts env M tmo mb a s = Continue ?s3"
    have l: "attempt_loop opts env M tmo mb a s = attempt_loop opts env M tmo mb (a + 1) ?s3"
      using lt by (subst attempt_loop.simps) (simp add: c)
    from Suc.IH [OF le k, of ?s3] show ?thesis unfolding l by simp
  qed
qed

section \<open>The in-flight counter\<close>

lemma run_enter_Inr:
  "run_enter b s = Inr s' \<longleftrightarrow> b \<and> active_operations s < max_concurrent_operations \<and> s' = run_admit s"
  by (auto simp: run_enter_def)

lemma run_admitted:
  assumes "task_is_function env" and "active_operations s < max_concurrent_operations"
  shows "run opts env s = map_option (\<lambda>(r, s'). (r, run_release s')) (run_body opts env (run_admit s))"
  using assms by (simp add: run_def run_enter_def split: option.splits)

lemma run_body_None: "run_body opts env s = None \<longleftrightarrow> admission opts env s = None"
  by (auto simp: run_body_def Let_def split: option.splits sum.splits prod.splits)

lemma admission_without_rate_limit: "rate_limit opts = None \<Longrightarrow> admission opts env s \<noteq> None"
  by (auto simp: admission_def split: backoff_option.splits option.splits sum.splits prod.splits)

lemma run_body_active:
  assumes "run_body opts env s = Some (r, s')"
  shows "active_operations s' = active_operations s"
proof (cases "admission opts env s")
  case None
  with assms show ?thesis by (simp add: run_body_def)
next
  case (Some p)
  obtain a s1 where p: "p = (a, s1)" by (cases p)
  with Some have k: "active_operations s1 = active_operations s" by (simp add: admission_keeps(1))
  show ?thesis
  proof (cases a)
    case (Inl err)
    with assms Some p k show ?thesis by (simp add: run_body_def)
  next
    case (Inr u)
    with assms Some p
    have "attempt_loop opts env (min (parse_safe_number (retries opts) 0 0 50 + 1) 51)
            (parse_safe_number (timeout opts) 0 0 300000)
            (parse_safe_number (max_backoff opts) 5000 0 60000) 1 s1 = (r, s')"
      by (simp add: run_body_def)
    from attempt_loop_active [OF this] k show ?thesis by simp
  qed
qed

lemma in_flight_counter:
  "in_flight t n \<Longrightarrow> active_operations t = int n \<and> int n \<le> max_concurrent_operations"
proof (induction rule: in_flight.induct)
  case start
  then show ?case by (simp add: initial_registry_def max_concurrent_operations_def)
next
  case (enter s n b s')
  then show ?case by (simp add: run_enter_Inr run_admit_def)
next
  case (work s n s')
  then show ?case by simp
next
  case (release s n)
  then show ?case by (simp add: run_release_def)
qed

lemma in_flight_run:
  assumes "in_flight t n" and "run opts env t = Some (r, t')"
  shows "in_flight t' n"
proof (cases "run_enter (task_is_function env) t")
  case (Inl err)
  with assms show ?thesis by (simp add: run_def)
next
  case (Inr t1)
  with assms(2) obtain t2 where b: "run_body opts env t1 = Some (r, t2)" and t': "t' = run_release t2"
    by (auto simp: run_def split: option.splits)
  from in_flight.enter [OF assms(1) Inr] have "in_flight t1 (Suc n)" .
  from in_flight.work [OF this run_body_active [OF b]] have "in_flight t2 (Suc n)" .
  from in_flight.release [OF this] t' show ?thesis by simp
qed

text \<open>
  C6. \<open>run\<close> and the in-flight counter, for every options object, every task and every
  registry. A call that finds the counter at or above the ceiling fails at once with
  \<open>MAX_CONCURRENT_EXCEEDED\<close> and leaves the registry as it was. A call that finds it
  below the ceiling is \<open>run\<close>'s \<open>try\<close> block on the registry with the counter
  incremented by one, which is then at most the ceiling, followed by the decrement of
  the \<open>finally\<close> block: whenever the \<open>try\<close> block exits, with a value, a fallback value
  or an error, \<open>run\<close> exits with that result, the \<open>try\<close> block has left the counter
  at its incremented value and the decrement restores the value the call found. The
  \<open>try\<close> block fails to exit only while the call is queued on the rate limiter, so a
  call without a rate limiter always exits; the attempt loop itself keeps the counter.
  Over calls in flight together, the counter equals the number of calls that have
  entered and not yet been released, and lies between 0 and the ceiling; a call of
  \<open>run\<close> that exits leaves that number as it found it. The ceiling is 100.
\<close>

theorem concurrency_budget:
  "(task_is_function env \<and> active_operations s0 \<ge> max_concurrent_operations \<longrightarrow>
      run opts env s0 = Some (Inl (Max_Concurrent_Exceeded (active_operations s0)), s0)) \<and>
   (task_is_function env \<and> active_operations s < max_concurrent_operations \<longrightarrow>
      run opts env s
        = map_option (\<lambda>(r, s1). (r, run_release s1)) (run_body opts env (run_admit s)) \<and>
      active_operations (run_admit s) = active_operations s + 1 \<and>
      active_operations (run_admit s) \<le> max_concurrent_operations) \<and>
   (task_is_function env \<and> active_operations s < max_concurrent_operations \<and>
    run_body opts env (run_admit s) = Some (r, s1) \<longrightarrow>
      run opts env s = Some (r, run_release s1) \<and>
      active_operations s1 = active_operations s + 1 \<and>
      active_operations (run_release s1) = active_operations s) \<and>
   (run_body opts env s2 = None \<longleftrightarrow> admission opts env s2 = None) \<and>
   (rate_limit opts = None \<longrightarrow> run opts env s3 \<noteq> None) \<and>
   (in_flight t n \<longrightarrow>
      active_operations t = int n \<and> 0 \<le> active_operations t \<and>
      active_operations t \<le> max_concurrent_operations) \<and>
   (in_flight t n \<and> run opts env t = Some (r', t') \<longrightarrow> in_flight t' n) \<and>
   active_operations (snd (attempt_loop opts env M tmo mb a s4)) = active_operations s4 \<and>
   max_concurrent_operations = 100"
proof (intro conjI impI)
  assume "task_is_function env \<and> active_operations s0 \<ge> max_concurrent_operations"
  then show "run opts env s0 = Some (Inl (Max_Concurrent_Exceeded (active_operations s0)), s0)"
    by (simp add: run_def run_enter_def)
next
  assume a: "task_is_function env \<and> active_operations s < max_concurrent_operations"
  then show "run opts env s
        = map_option (\<lambda>(r, s1). (r, run_release s1)) (run_body opts env (run_admit s))"
    by (simp add: run_admitted)
  show "active_operations (run_admit s) = active_operations s + 1"
    by (simp add: run_admit_def)
  from a show "active_operations (run_admit s) \<le> max_concurrent_operations"
    by (simp add: run_admit_def)
next
  assume a: "task_is_function env \<and> active_operations s < max_concurrent_operations \<and>
    run_body opts env (run_admit s) = Some (r, s1)"
  then show "run opts env s = Some (r, run_release s1)"
    by (simp add: run_admitted)
  from a run_body_active [of opts env "run_admit s" r s1]
  show "active_operations s1 = active_operations s + 1"
    "active_operations (run_release s1) = active_operations s"
    by (simp_all add: run_admit_def run_release_def)
next
  show "run_body opts env s2 = None \<longleftrightarrow> admission opts env s2 = None"
    by (rule run_body_None)
next
  assume "rate_limit opts = None"
  then have "run_body opts env u \<noteq> None" for u
    by (simp add: run_body_None admission_without_rate_limit)
  then show "run opts env s3 \<noteq> None"
    by (cases "run_enter (task_is_function env) s3") (auto simp: run_def split: option.splits)
next
  assume "in_flight t n"
  from in_flight_counter [OF this]
  show "active_operations t = int n" "0 \<le> active_operations t"
    "active_operations t \<le> max_concurrent_operations" by simp_all
next
  assume "in_flight t n \<and> run opts env t = Some (r', t')"
  then show "in_flight t' n" using in_flight_run by blast
next
  show "active_operations (snd (attempt_loop opts env M tmo mb a s4)) = active_operations s4"
    by (cases "attempt_loop opts env M tmo mb a s4") (simp add: attempt_loop_active)
next
  show "max_concurrent_operations = 100" by (simp add: max_concurrent_operations_def)
qed

lemma ok_body:
  "run_body two_retries ok_env (run_admit initial_registry) =
      Some (Inr (Task_Value ''ok''),
            observe ''asyncguardjs.task.duration_ms'' 5 [(''attempt'', LNum 1)]
             (inc ''asyncguardjs.attempt'' [(''attempt'', LNum 1)] (run_admit initial_registry)))"
proof -
  have a: "admission two_retries ok_env (run_admit initial_registry)
       = Some (Inr (), run_admit initial_registry)"
    by (simp add: two_retries_def admission_def)
  have st: "attempt_step two_retries ok_env M tmo mb 1 s =
          Done (Inr (Task_Value ''ok''),
            observe ''asyncguardjs.task.duration_ms'' 5 [(''attempt'', LNum 1)]
             (inc ''asyncguardjs.attempt'' [(''attempt'', LNum 1)] s))" for M tmo mb s
    by (simp add: attempt_step_def two_retries_def ok_env_def failing_attempt_def Let_def)
  have p: "min (parse_safe_number (retries two_retries) 0 0 50 + 1) 51 = 3"
    by (simp add: two_retries_def parse_safe_number_def)
  show ?thesis
    unfolding run_body_def Let_def a p
    by (subst attempt_loop.simps) (simp add: st)
qed

theorem concurrency_budget_witness:
  "run two_retries ok_env full_registry = Some (Inl (Max_Concurrent_Exceeded 100), full_registry) \<and>
   active_operations (run_admit initial_registry) = 1 \<and>
   (\<exists>s'. run two_retries ok_env initial_registry = Some (Inr (Task_Value ''ok''), s') \<and>
         active_operations s' = 0 \<and> in_flight s' 0) \<and>
   run two_retries ok_env initial_registry \<noteq> None \<and>
   in_flight (run_admit initial_registry) 1"
proof -
  let ?s1 = "observe ''asyncguardjs.task.duration_ms'' 5 [(''attempt'', LNum 1)]
             (inc ''asyncguardjs.attempt'' [(''attempt'', LNum 1)] (run_admit initial_registry))"
  have t: "task_is_function ok_env" by (simp add: ok_env_def)
  have f: "active_operations full_registry \<ge> max_concurrent_operations"
    "active_operations full_registry = 100"
    by (simp_all add: full_registry_def max_concurrent_operations_def)
  have i: "active_operations initial_registry < max_concurrent_operations"
    "active_operations initial_registry = 0"
    by (simp_all add: initial_registry_def max_concurrent_operations_def)
  have n: "rate_limit two_retries = None" by (simp add: two_retries_def)
  have e: "run_enter True initial_registry = Inr (run_admit initial_registry)"
    using i(1) by (simp add: run_enter_def)
  have fl: "in_flight (run_admit initial_registry) 1"
    using in_flight.enter [OF in_flight.start e] by simp
  note cb = concurrency_budget [of ok_env full_registry two_retries initial_registry
      "Inr (Task_Value ''ok'')" ?s1 initial_registry initial_registry initial_registry 0
      "Inr (Task_Value ''ok'')" "run_release ?s1"]
  from cb t f have a: "run two_retries ok_env full_registry
             = Some (Inl (Max_Concurrent_Exceeded 100), full_registry)"
    by simp
  from cb t i ok_body
  have b: "run two_retries ok_env initial_registry = Some (Inr (Task_Value ''ok''), run_release ?s1)"
    and b2: "active_operations (run_release ?s1) = 0"
    and b3: "active_operations (run_admit initial_registry) = 1"
    by simp_all
  from cb b in_flight.start have c: "in_flight (run_release ?s1) 0"
    by blast
  from cb n have d: "run two_retries ok_env initial_registry \<noteq> None"
    by blast
  from a b b2 b3 c d fl show ?thesis by simp
qed

section \<open>Attempts and retries of a task that always fails\<close>

lemma parse_retries:
  "0 \<le> r \<Longrightarrow> r \<le> 50 \<Longrightarrow> parse_safe_number (JNum (Fin (real_of_int r))) 0 0 50 = r"
  by (simp add: parse_safe_number_def)

lemma counter_total_frame [simp]:
  "counter_total nm (run_admit s) = counter_total nm s"
  "counter_total nm (run_release s) = counter_total nm s"
  by (simp_all add: counter_total_def run_admit_def run_release_def)

lemma counter_total_initial [simp]: "counter_total nm initial_registry = 0"
  by (simp add: counter_total_def initial_registry_def)

lemma three_bumps:
  "bump ''asyncguardjs.failure'' [(''attempt'', LNum 3), (''aborted'', LBool False)]
  (bump ''asyncguardjs.attempt'' [(''attempt'', LNum 3)]
  (bump ''asyncguardjs.retry'' [(''attempt'', LNum 2)]
  (bump ''asyncguardjs.failure'' [(''attempt'', LNum 2), (''aborted'', LBool False)]
  (bump ''asyncguardjs.attempt'' [(''attempt'', LNum 2)]
  (bump ''asyncguardjs.retry'' [(''attempt'', LNum 1)]
  (bump ''asyncguardjs.failure'' [(''attempt'', LNum 1), (''aborted'', LBool False)]
  (bump ''asyncguardjs.attempt'' [(''attempt'', LNum 1)] [])))))))
  = [(''asyncguardjs.attempt{attempt:1}'', 1),
     (''asyncguardjs.failure{aborted:false,attempt:1}'', 1),
     (''asyncguardjs.retry{attempt:1}'', 1),
     (''asyncguardjs.attempt{attempt:2}'', 1),
     (''asyncguardjs.failure{aborted:false,attempt:2}'', 1),
     (''asyncguardjs.retry{attempt:2}'', 1),
     (''asyncguardjs.attempt{attempt:3}'', 1),
     (''asyncguardjs.failure{aborted:false,attempt:3}'', 1)]"
  by code_simp

lemma failing_run_counters:
  "run two_retries failing_env initial_registry = Some (res, s') \<Longrightarrow>
   counters s' =
    [(''asyncguardjs.attempt{attempt:1}'', 1),
     (''asyncguardjs.failure{aborted:false,attempt:1}'', 1),
     (''asyncguardjs.retry{attempt:1}'', 1),
     (''asyncguardjs.attempt{attempt:2}'', 1),
     (''asyncguardjs.failure{aborted:false,attempt:2}'', 1),
     (''asyncguardjs.retry{attempt:2}'', 1),
     (''asyncguardjs.attempt{attempt:3}'', 1),
     (''asyncguardjs.failure{aborted:false,attempt:3}'', 1)]"
proof -
  assume r: "run two_retries failing_env initial_registry = Some (res, s')"
  have e: "always_fails failing_env" "never_aborted failing_env" "retry_if two_retries = None"
    by (simp_all add: failing_env_def failing_attempt_def always_fails_def never_aborted_def
          two_retries_def)
  have t: "task_is_function failing_env" "active_operations initial_registry < max_concurrent_operations"
    by (simp_all add: failing_env_def initial_registry_def max_concurrent_operations_def)
  have a: "admission two_retries failing_env (run_admit initial_registry)
       = Some (Inr (), run_admit initial_registry)"
    by (simp add: two_retries_def admission_def)
  have p: "min (parse_safe_number (retries two_retries) 0 0 50 + 1) 51 = 3"
    by (simp add: two_retries_def parse_safe_number_def)
  have tf: "snd (terminal_failure two_retries e err n ab s) = s" for e err n ab s
    by (simp add: terminal_failure_def two_retries_def)
  from failing_step(2) [OF e, of 3 3] obtain err where
    d: "attempt_step two_retries failing_env 3 tmo mb 3 s =
           Done (terminal_failure two_retries (attempts failing_env 3) err 3 False
             (inc ''asyncguardjs.failure'' [(''attempt'', LNum 3), (''aborted'', LBool False)]
               (inc ''asyncguardjs.attempt'' [(''attempt'', LNum 3)] s)))" for tmo mb s
    by (auto simp add: failing_env_def failing_attempt_def)
  have l: "counters (snd (attempt_loop two_retries failing_env 3 tmo mb 1 s)) =
    bump ''asyncguardjs.failure'' [(''attempt'', LNum 3), (''aborted'', LBool False)]
    (bump ''asyncguardjs.attempt'' [(''attempt'', LNum 3)]
    (bump ''asyncguardjs.retry'' [(''attempt'', LNum 2)]
    (bump ''asyncguardjs.failure'' [(''attempt'', LNum 2), (''aborted'', LBool False)]
    (bump ''asyncguardjs.attempt'' [(''attempt'', LNum 2)]
    (bump ''asyncguardjs.retry'' [(''attempt'', LNum 1)]
    (bump ''asyncguardjs.failure'' [(''attempt'', LNum 1), (''aborted'', LBool False)]
    (bump ''asyncguardjs.attempt'' [(''attempt'', LNum 1)] (counters s))))))))" for tmo mb s
    apply (subst attempt_loop.simps, simp add: failing_step(1) [OF e])
    apply (subst attempt_loop.simps, simp add: failing_step(1) [OF e])
    apply (subst attempt_loop.simps, simp add: d tf)
    done
  from r have "s' = run_release (snd (attempt_loop two_retries failing_env 3
      (parse_safe_number (timeout two_retries) 0 0 300000)
      (parse_safe_number (max_backoff two_retries) 5000 0 60000) 1 (run_admit initial_registry)))"
    by (auto simp add: run_admitted [OF t] run_body_def a p split_beta)
  then have "counters s' = counters (snd (attempt_loop two_retries failing_env 3
      (parse_safe_number (timeout two_retries) 0 0 300000)
      (parse_safe_number (max_backoff two_retries) 5000 0 60000) 1 (run_admit initial_registry)))"
    by (simp add: run_release_def)
  also have "counters (run_admit initial_registry) = []"
    by (simp add: run_admit_def initial_registry_def)
  ultimately show ?thesis by (simp add: l three_bumps)
qed

text \<open>
  C1. For every \<open>retries: r\<close> with \<open>r\<close> an integer from 0 to 50, the default
  \<open>retry_if\<close>, signals that are never aborted and a task that rejects at every attempt,
  a call of \<open>run\<close> that is admitted (the in-flight counter is below the ceiling, the
  circuit breaker and the rate limiter let it through) returns, and in the registry it
  returns the counters of the metric \<open>asyncguardjs.attempt\<close> have grown by \<open>r + 1\<close> in
  total and those of \<open>asyncguardjs.retry\<close> by \<open>r\<close>; \<open>r + 1\<close> is at most 51; the result
  is the one of the terminal branch for attempt \<open>r + 1\<close> (the wrapped error of that
  attempt, when there is no fallback). The counters map is taken to have room for the
  keys the call can add (three for each wait on the rate limiter, three for each
  attempt, two more for the circuit breaker and the terminal branch), so that \<open>_inc\<close>
  evicts no key during the call.
\<close>

theorem failing_task_counts:
  assumes "0 \<le> r" and "r \<le> 50" and "retries opts = JNum (Fin (real_of_int r))"
    and "retry_if opts = None"
    and "never_aborted env" and "always_fails env"
    and "task_is_function env" and "active_operations s < max_concurrent_operations"
    and "admission opts env (run_admit s) = Some (Inr u, s1)"
    and "length (counters s) + 3 * length (rl_steps env) + 3 * nat r + 5 \<le> max_metric_keys"
  shows "\<exists>res s' err. run opts env s = Some (res, s') \<and>
           counter_total ''asyncguardjs.attempt'' s'
             = counter_total ''asyncguardjs.attempt'' s + r + 1 \<and>
           counter_total ''asyncguardjs.retry'' s'
             = counter_total ''asyncguardjs.retry'' s + r \<and>
           r + 1 \<le> 51 \<and>
           outcome (attempts env (r + 1)) = Rejects err \<and>
           res = terminal_result opts (attempts env (r + 1)) err (r + 1) False"
proof -
  let ?M = "min (parse_safe_number (retries opts) 0 0 50 + 1) 51"
  let ?tmo = "parse_safe_number (timeout opts) 0 0 300000"
  let ?mb = "parse_safe_number (max_backoff opts) 5000 0 60000"
  have M: "?M = r + 1" using assms(1-3) by (simp add: parse_retries)
  have le: "(1::int) \<le> r + 1" and k: "nat r = nat (r + 1 - 1)" using assms(1) by simp_all
  have ad: "adds_others (3 * length (rl_steps env)) (counters s) (counters s1)"
    using admission_keeps(2) [OF assms(9)] by (simp add: run_admit_def)
  from ad assms(10) have len: "length (counters s1) + 3 * nat r + 5 \<le> max_metric_keys"
    by (simp add: adds_others_def)
  from ad assms(10) have same: "loop_metric nm \<Longrightarrow> counter_total nm s1 = counter_total nm s" for nm
    by (simp add: adds_others_def counter_total_eq)
  from failing_loop [OF assms(6,5,4) le k len, of ?tmo ?mb]
  obtain err where
    o: "outcome (attempts env (r + 1)) = Rejects err" and
    res: "fst (attempt_loop opts env (r + 1) ?tmo ?mb 1 s1)
            = terminal_result opts (attempts env (r + 1)) err (r + 1) False"
    and c1: "counter_total ''asyncguardjs.attempt'' (snd (attempt_loop opts env (r + 1) ?tmo ?mb 1 s1))
            = counter_total ''asyncguardjs.attempt'' s1 + int (nat r) + 1"
    and c2: "counter_total ''asyncguardjs.retry'' (snd (attempt_loop opts env (r + 1) ?tmo ?mb 1 s1))
            = counter_total ''asyncguardjs.retry'' s1 + int (nat r)"
    by blast
  have a1: "counter_total ''asyncguardjs.attempt'' s1 = counter_total ''asyncguardjs.attempt'' s"
    and a2: "counter_total ''asyncguardjs.retry'' s1 = counter_total ''asyncguardjs.retry'' s"
    by (simp_all add: same loop_metric_def)
  have b: "run_body opts env (run_admit s) = Some (attempt_loop opts env (r + 1) ?tmo ?mb 1 s1)"
    using assms(9) M by (simp add: run_body_def)
  have "run opts env s = Some (fst (attempt_loop opts env (r + 1) ?tmo ?mb 1 s1),
                              run_release (snd (attempt_loop opts env (r + 1) ?tmo ?mb 1 s1)))"
    by (simp add: run_admitted [OF assms(7,8)] b split_beta)
  with o res c1 c2 a1 a2 assms(1,2) show ?thesis
    by auto
qed

theorem failing_task_counts_witness:
  "\<exists>s'. run two_retries failing_env initial_registry
          = Some (Inl (Task_Failure ''boom'' (Thrown (Some ''boom'')) 3), s') \<and>
        counter_total ''asyncguardjs.attempt'' s' = 3 \<and>
        counter_total ''asyncguardjs.retry'' s' = 2 \<and>
        counters s' =
          [(''asyncguardjs.attempt{attempt:1}'', 1),
           (''asyncguardjs.failure{aborted:false,attempt:1}'', 1),
           (''asyncguardjs.retry{attempt:1}'', 1),
           (''asyncguardjs.attempt{attempt:2}'', 1),
           (''asyncguardjs.failure{aborted:false,attempt:2}'', 1),
           (''asyncguardjs.retry{attempt:2}'', 1),
           (''asyncguardjs.attempt{attempt:3}'', 1),
           (''asyncguardjs.failure{aborted:false,attempt:3}'', 1)]"
proof -
  have h: "(0::int) \<le> 2" "(2::int) \<le> 50" "retries two_retries = JNum (Fin (real_of_int 2))"
    "retry_if two_retries = None" "never_aborted failing_env" "always_fails failing_env"
    "task_is_function failing_env" "active_operations initial_registry < max_concurrent_operations"
    "admission two_retries failing_env (run_admit initial_registry)
       = Some (Inr (), run_admit initial_registry)"
    "length (counters initial_registry) + 3 * length (rl_steps failing_env) + 3 * nat 2 + 5
       \<le> max_metric_keys"
    by (simp_all add: two_retries_def failing_env_def failing_attempt_def never_aborted_def
          always_fails_def initial_registry_def max_concurrent_operations_def admission_def
          max_metric_keys_def)
  from failing_task_counts [OF h] obtain res s' where
    r: "run two_retries failing_env initial_registry = Some (res, s')"
    and c: "counter_total ''asyncguardjs.attempt'' s' = 3" "counter_total ''asyncguardjs.retry'' s' = 2"
    and v: "res = Inl (Task_Failure ''boom'' (Thrown (Some ''boom'')) 3)"
    by (auto simp: terminal_result_def terminal_message_def two_retries_def failing_env_def
          failing_attempt_def)
  from r c v failing_run_counters [OF r] show ?thesis by simp
qed

section \<open>Circuit state stored by run\<close>

lemma circuits_frame [simp]:
  "circuits (run_admit s) = circuits s"
  "circuits (run_release s) = circuits s"
  by (simp_all add: run_admit_def run_release_def)

text \<open>
  C10. In a registry whose circuit keys are all sanitized (the initial registry is one,
  and every operation keeps it so), let the circuit name of a call of \<open>run\<close> contain one
  of the characters \<open>{ } : ,\<close>, line feed, carriage return or tab, or be longer than 100
  characters, and let the call be admitted and its task reject at every attempt, with
  no signal aborted. Then \<open>run\<close> returns, and in the registry it returns the circuit is
  stored under the sanitized name (cut to 100 characters, each offending character
  replaced by an underscore), which differs from the name; \<open>get_circuit_status\<close> of the
  name as given returns \<open>null\<close> and changes nothing, and \<open>reset_circuit\<close> of the name
  as given deletes nothing.
\<close>

theorem run_stores_under_sanitized_key:
  assumes "circuit_keys_sanitized s"
    and "circuit_breaker opts = Some cfg" and "name cfg = Some nm"
    and "list_ex offending nm \<or> length nm > 100"
    and "task_is_function env" and "active_operations s < max_concurrent_operations"
    and "admission opts env (run_admit s) = Some (Inr u, s1)"
    and "always_fails env" and "never_aborted env"
  shows "\<exists>res s'. run opts env s = Some (res, s') \<and>
           key_of_name (name cfg) = map (\<lambda>c. if offending c then CHR ''_'' else c) (take 100 nm) \<and>
           key_of_name (name cfg) \<noteq> nm \<and>
           map_of (circuits s') (key_of_name (name cfg)) \<noteq> None \<and>
           get_circuit_status nm s' = (None, s') \<and>
           reset_circuit nm s' = s' \<and>
           circuit_keys_sanitized s'"
proof -
  let ?M = "min (parse_safe_number (retries opts) 0 0 50 + 1) 51"
  let ?tmo = "parse_safe_number (timeout opts) 0 0 300000"
  let ?mb = "parse_safe_number (max_backoff opts) 5000 0 60000"
  have "0 \<le> parse_safe_number (retries opts) 0 0 50"
    by (auto simp: parse_safe_number_def Let_def split: jsval.splits jsnum.splits)
  then have le: "1 \<le> ?M" by simp
  have "circuit_keys_sanitized (run_admit s)"
    using assms(1) by (simp add: circuit_keys_sanitized_def)
  with admission_keeps(3) [OF assms(7)] have inv1: "circuit_keys_sanitized s1" by simp
  from failing_loop_terminal [OF assms(8,9) le refl, of opts ?tmo ?mb s1]
  obtain a' err s0 where
    l: "attempt_loop opts env ?M ?tmo ?mb 1 s1
          = terminal_failure opts (attempts env a') err a' False s0"
    and c0: "circuits s0 = circuits s1" by blast
  from inv1 c0 have inv0: "circuit_keys_sanitized s0" by (simp add: circuit_keys_sanitized_def)
  let ?t = "terminal_failure opts (attempts env a') err a' False s0"
  let ?s' = "run_release (snd ?t)"
  let ?rf = "record_failure cfg (record_now (attempts env a')) s0"
  have b: "run_body opts env (run_admit s) = Some ?t"
    using assms(7) l by (simp add: run_body_def)
  have r: "run opts env s = Some (fst ?t, ?s')"
    by (simp add: run_admitted [OF assms(5,6)] b split_beta)
  have c: "circuits ?s' = circuits ?rf"
    by (simp add: terminal_failure_keeps(3) assms(2))
  from record_failure_key [OF inv0 assms(3,4), of "record_now (attempts env a')"] c
  have k: "key_of_name (name cfg) = map (\<lambda>c. if offending c then CHR ''_'' else c) (take 100 nm)"
      "key_of_name (name cfg) \<noteq> nm"
      "map_of (circuits ?s') (key_of_name (name cfg)) \<noteq> None"
      "map_of (circuits ?s') nm = None"
      "AList.delete nm (circuits ?s') = circuits ?s'"
      "circuit_keys_sanitized ?s'"
    by (auto simp add: circuit_keys_sanitized_def)
  from k(4,5) have g: "get_circuit_status nm ?s' = (None, ?s')" "reset_circuit nm ?s' = ?s'"
    by (simp_all add: get_circuit_status_def reset_circuit_def)
  from r k(1,2,3,6) g show ?thesis by blast
qed

theorem run_stores_under_sanitized_key_witness:
  "key_of_name (name colon_cfg) = ''db_main'' \<and>
   (\<exists>res s'. run colon_opts failing_env initial_registry = Some (res, s') \<and>
      map_of (circuits s') ''db_main'' \<noteq> None \<and>
      get_circuit_status ''db:main'' s' = (None, s') \<and>
      reset_circuit ''db:main'' s' = s')"
proof -
  obtain b s1 where o: "is_circuit_open colon_cfg 0 (run_admit initial_registry) = (b, s1)"
    by (cases "is_circuit_open colon_cfg 0 (run_admit initial_registry)")
  have "fst (is_circuit_open colon_cfg 0 (run_admit initial_registry)) = False"
    by (simp add: is_circuit_open_eq initial_registry_def)
  with o have b: "b = False" by simp
  have v: "threshold colon_cfg = None" "window colon_cfg = None" "recovery colon_cfg = None"
    "circuit_now failing_env = 0" "backoff colon_opts = Backoff_Default"
    "circuit_breaker colon_opts = Some colon_cfg" "rate_limit colon_opts = None"
    by (simp_all add: colon_cfg_def failing_env_def colon_opts_def two_retries_def)
  have a: "admission colon_opts failing_env (run_admit initial_registry) = Some (Inr (), s1)"
    by (simp add: admission_def check_circuit_breaker_def v o b)
  have h: "circuit_keys_sanitized initial_registry"
    "circuit_breaker colon_opts = Some colon_cfg" "name colon_cfg = Some ''db:main''"
    "list_ex offending ''db:main'' \<or> length ''db:main'' > 100"
    "task_is_function failing_env" "active_operations initial_registry < max_concurrent_operations"
    by (simp_all add: circuit_keys_sanitized_def v colon_cfg_def
          offending_def failing_env_def max_concurrent_operations_def initial_registry_def)
  have h': "always_fails failing_env" "never_aborted failing_env"
    by (simp_all add: failing_env_def failing_attempt_def always_fails_def never_aborted_def)
  from run_stores_under_sanitized_key [OF h a h'] show ?thesis
    by (auto simp add: offending_def colon_cfg_def)
qed

section \<open>Rate limiter: the stored limit\<close>

lemma limiters_two_requests:
  "rate_limiters two_request_registry =
     [(''api'', \<lparr>requests = [0, 1],
                configuration = Some \<lparr>max_requests = Some 1, window_ms = Some 1000\<rparr>\<rparr>)]"
  by (simp add: two_request_registry_def register_eq can_proceed_eq limiters_one_request
        maybe_cleanup_rate_limiters_not_full max_rate_limiters_def key_strict pruned_def Let_def)
     (simp add: loose_cfg_def js_or_def)

lemma second_check: "fst (can_proceed_rate_limit loose_cfg 1 one_request_registry) = True"
  by (simp add: can_proceed_eq limiters_one_request maybe_cleanup_rate_limiters_not_full
        max_rate_limiters_def key_strict pruned_def Let_def)
     (simp add: loose_cfg_def js_or_def)

text \<open>
  C8. The limiter \<open>api\<close> is created by a call with \<open>max_requests: 1, window_ms: 1000\<close>
  and holds the request of time 0. At time 1 \<open>run\<close>'s admission of a call under the same
  name with \<open>max_requests: 2\<close> succeeds: the check passes and the request is registered.
  The limiter then holds the two timestamps 0 and 1, both within the window, while the
  \<open>max_requests\<close> it stores is still 1.
\<close>

theorem stored_limit_exceeded:
  "map_of (rate_limiters one_request_registry) ''api''
     = Some \<lparr>requests = [0],
             configuration = Some \<lparr>max_requests = Some 1, window_ms = Some 1000\<rparr>\<rparr> \<and>
   admit_rate_limit loose_cfg False [step1] one_request_registry
     = Some (Inr (), two_request_registry) \<and>
   map_of (rate_limiters two_request_registry) ''api''
     = Some \<lparr>requests = [0, 1],
             configuration = Some \<lparr>max_requests = Some 1, window_ms = Some 1000\<rparr>\<rparr>"
proof -
  obtain b s1 where c: "can_proceed_rate_limit loose_cfg 1 one_request_registry = (b, s1)"
    by (cases "can_proceed_rate_limit loose_cfg 1 one_request_registry")
  with second_check have b: "b = True" by simp
  have v: "\<not> (case max_requests loose_cfg of None \<Rightarrow> True | Some m \<Rightarrow> m < 1)"
          "\<not> (case window_ms loose_cfg of None \<Rightarrow> True | Some w \<Rightarrow> w < 1)"
          "register_now step1 = 1" "check_now step1 = 1"
    by (simp_all add: loose_cfg_def step1_def)
  have a: "admit_rate_limit loose_cfg False [step1] one_request_registry
             = Some (Inr (), two_request_registry)"
    by (simp add: admit_rate_limit_def two_request_registry_def v c b)
  show ?thesis by (simp add: a limiters_one_request limiters_two_requests)
qed

end
